theory Spec2Isabelle
  imports Complex_Main
begin

section \<open>Pulsation-pattern matching of \<^verbatim>\<open>pypulse/functions_for_gyre.py\<close>\<close>

text \<open>
  The theory embeds \<^verbatim>\<open>chisq_longest_sequence\<close>, \<^verbatim>\<open>generate_obs_series\<close>,
  \<^verbatim>\<open>generate_thry_series\<close>, \<^verbatim>\<open>puls_series_from_given_puls\<close> and the segment loop of
  \<^verbatim>\<open>theoretical_pattern_from_dfrow\<close>.

  Numpy arrays and Python lists are HOL lists. Python floats are modelled as \<^typ>\<open>real\<close>:
  the model is the code's arithmetic without rounding, and it says nothing about inputs on
  which the floating-point code divides by zero or overflows (in HOL \<open>x / 0 = 0\<close>, in numpy
  the quotient is \<open>inf\<close> or \<open>nan\<close>); theorems about quotients therefore assume positive
  observational errors. Radial orders are \<^typ>\<open>int\<close>. Every Python exception is a value
  \<open>Inl e\<close> of the result type \<open>error + 'a\<close>.
\<close>

subsection \<open>Exceptions and array primitives\<close>

datatype error = IndexError | ValueError | TypeError | SystemExit

definition ebind :: "error + 'a \<Rightarrow> ('a \<Rightarrow> error + 'b) \<Rightarrow> error + 'b" where
  "ebind m f = (case m of Inl e \<Rightarrow> Inl e | Inr x \<Rightarrow> f x)"

text \<open>\<^verbatim>\<open>xs[i]\<close> for an index \<open>i \<ge> 0\<close>: IndexError out of range.\<close>

definition py_index :: "'a list \<Rightarrow> nat \<Rightarrow> error + 'a" where
  "py_index xs i = (if i < length xs then Inr (xs ! i) else Inl IndexError)"

text \<open>The builtins \<^verbatim>\<open>min(xs)\<close> and \<^verbatim>\<open>max(xs)\<close>: ValueError on an empty sequence.\<close>

definition py_min :: "'a::linorder list \<Rightarrow> error + 'a" where
  "py_min xs = (case xs of [] \<Rightarrow> Inl ValueError | y # ys \<Rightarrow> Inr (fold min ys y))"

definition py_max :: "'a::linorder list \<Rightarrow> error + 'a" where
  "py_max xs = (case xs of [] \<Rightarrow> Inl ValueError | y # ys \<Rightarrow> Inr (fold max ys y))"

text \<open>\<^verbatim>\<open>np.where(xs == v)[0]\<close>: the indices holding \<open>v\<close>, in increasing order.\<close>

definition np_where_eq :: "'a list \<Rightarrow> 'a \<Rightarrow> nat list" where
  "np_where_eq xs v = filter (\<lambda>i. xs ! i = v) [0..<length xs]"

text \<open>\<^verbatim>\<open>xs[idxs]\<close> with an index array: IndexError when an index is out of range.\<close>

definition np_take :: "'a list \<Rightarrow> nat list \<Rightarrow> error + 'a list" where
  "np_take xs idxs =
     (if list_all (\<lambda>i. i < length xs) idxs then Inr (map (\<lambda>i. xs ! i) idxs)
      else Inl IndexError)"

subsection \<open>Matching each observed period (lines 450-461)\<close>

text \<open>A row \<^verbatim>\<open>[period, best_match, int(best_order), chisq]\<close> of \<^verbatim>\<open>pairs_orders\<close>.\<close>

record pair_order =
  obs_period :: real
  best_match :: real
  best_order :: int
  chisq :: real

definition chisqs_of :: "real list \<Rightarrow> real \<Rightarrow> real \<Rightarrow> real list" where
  "chisqs_of tperiods period err = map (\<lambda>tperiod. ((period - tperiod) / err)\<^sup>2) tperiods"

text \<open>The body of the loop over \<^verbatim>\<open>enumerate(operiods)\<close>.\<close>

definition best_pair :: "real list \<Rightarrow> int list \<Rightarrow> real list \<Rightarrow> nat \<Rightarrow> real \<Rightarrow> error + pair_order" where
  "best_pair tperiods orders operiods_errors ii period =
     ebind (py_index operiods_errors ii) (\<lambda>err.
       let chisqs = chisqs_of tperiods period err in
       ebind (py_min chisqs) (\<lambda>m.
         let min_ind = np_where_eq chisqs m in
         ebind (ebind (np_take tperiods min_ind) (\<lambda>ts. py_index ts 0)) (\<lambda>bm.
         ebind (ebind (np_take orders min_ind) (\<lambda>os. py_index os 0)) (\<lambda>bo.
         ebind (ebind (np_take chisqs min_ind) (\<lambda>cs. py_index cs 0)) (\<lambda>c.
           Inr \<lparr>obs_period = period, best_match = bm, best_order = bo, chisq = c\<rparr>)))))"

fun match_loop ::
  "real list \<Rightarrow> int list \<Rightarrow> real list \<Rightarrow> (nat \<times> real) list \<Rightarrow> pair_order list
     \<Rightarrow> error + pair_order list" where
  "match_loop tperiods orders operiods_errors [] pairs_orders = Inr pairs_orders"
| "match_loop tperiods orders operiods_errors ((ii, period) # rest) pairs_orders =
     ebind (best_pair tperiods orders operiods_errors ii period) (\<lambda>p.
       match_loop tperiods orders operiods_errors rest (pairs_orders @ [p]))"

definition sequence_matcher ::
  "real list \<Rightarrow> int list \<Rightarrow> real list \<Rightarrow> real list \<Rightarrow> error + pair_order list" where
  "sequence_matcher tperiods orders operiods operiods_errors =
     match_loop tperiods orders operiods_errors (List.enumerate 0 operiods) []"

subsection \<open>Direction of the radial orders (lines 475-478)\<close>

definition increase_or_decrease :: "int list \<Rightarrow> error + int" where
  "increase_or_decrease orders =
     ebind (py_index orders 1) (\<lambda>o1.
     ebind (py_index orders 0) (\<lambda>o0.
       Inr (if o1 = o0 - 1 then - 1 else 1)))"

subsection \<open>Splitting the pairs into sequences (lines 480-496)\<close>

text \<open>
  One pass of the loop over \<^verbatim>\<open>enumerate(pairs_orders[:-1])\<close>; the state is
  \<open>(current, sequences)\<close>. The index \<open>ii + 1\<close> is in range, because \<open>ii\<close> runs over all
  but the last position.
\<close>

definition segment_step ::
  "int \<Rightarrow> pair_order list \<Rightarrow> nat \<Rightarrow> pair_order list \<times> pair_order list list
     \<Rightarrow> nat \<times> pair_order \<Rightarrow> pair_order list \<times> pair_order list list" where
  "segment_step inc pairs_orders lp st x =
     (case (st, x) of ((current, sequences), (ii, sett)) \<Rightarrow>
        (case (if \<bar>best_order sett\<bar> = \<bar>best_order (pairs_orders ! (ii + 1))\<bar> + inc
               then (current @ [sett], sequences)
               else ([], sequences @ [current @ [sett]]))
         of (current', sequences') \<Rightarrow>
           if int ii = int lp - 1
           then ([], sequences' @ [current' @ [sett]])
           else (current', sequences')))"

definition run_segmenter :: "int \<Rightarrow> pair_order list \<Rightarrow> pair_order list list" where
  "run_segmenter inc pairs_orders =
     (let lp = length (butlast pairs_orders) in
      snd (foldl (segment_step inc pairs_orders lp) ([], [])
             (List.enumerate 0 (butlast pairs_orders))))"

subsection \<open>Choosing the longest, best sequence (lines 497-508)\<close>

definition score :: "pair_order list \<Rightarrow> real" where
  "score s = sum_list (map chisq s) / real (length s)"

definition sequence_selector :: "pair_order list list \<Rightarrow> error + pair_order list" where
  "sequence_selector sequences =
     (let len_list = map length sequences in
      ebind (py_max len_list) (\<lambda>m.
        let longest = np_where_eq len_list m in
        if length longest = 1
        then ebind (py_index longest 0) (\<lambda>l0. py_index sequences l0)
        else
          ebind (np_take sequences longest) (\<lambda>tied.
            let scores = map score tied in
            ebind (py_min scores) (\<lambda>ms.
            ebind (py_index (np_where_eq scores ms) 0) (\<lambda>min_score.
            ebind (py_index longest min_score) (\<lambda>l. py_index sequences l))))))"

subsection \<open>Rebuilding the theoretical pattern (lines 510-534)\<close>

text \<open>The body of the loop over \<^verbatim>\<open>enumerate(operiods)\<close>: one aligned (period, order).\<close>

definition aligned_entry :: "real list \<Rightarrow> int list \<Rightarrow> int \<Rightarrow> nat \<Rightarrow> error + (real \<times> int)" where
  "aligned_entry tperiods orders thr_ind_start i =
     (let thr_ind_current = thr_ind_start + int i in
      if thr_ind_current < 0 then Inr (- 1, - 1)
      else if thr_ind_current \<ge> int (length tperiods) then Inr (- 1, - 1)
      else ebind (py_index tperiods (nat thr_ind_current)) (\<lambda>tper.
           ebind (py_index orders (nat thr_ind_current)) (\<lambda>ordr. Inr (tper, ordr))))"

fun align_loop ::
  "real list \<Rightarrow> int list \<Rightarrow> int \<Rightarrow> nat list \<Rightarrow> (real \<times> int) list \<Rightarrow> error + (real \<times> int) list" where
  "align_loop tperiods orders thr_ind_start [] acc = Inr acc"
| "align_loop tperiods orders thr_ind_start (i # rest) acc =
     ebind (aligned_entry tperiods orders thr_ind_start i) (\<lambda>e.
       align_loop tperiods orders thr_ind_start rest (acc @ [e]))"

definition pattern_aligner ::
  "real list \<Rightarrow> int list \<Rightarrow> real list \<Rightarrow> pair_order list \<Rightarrow> error + (real \<times> int) list" where
  "pattern_aligner tperiods orders operiods lseq =
     ebind (py_index lseq 0) (\<lambda>first.
     ebind (py_index (np_where_eq operiods (obs_period first)) 0) (\<lambda>obs_ordering_ind.
     ebind (py_index (np_where_eq tperiods (best_match first)) 0) (\<lambda>thr_ordering_ind.
       let thr_ind_start = int thr_ordering_ind - int obs_ordering_ind in
       align_loop tperiods orders thr_ind_start [0..<length operiods] [])))"

subsection \<open>Period spacings (lines 566-599) and the final chi-square (lines 536-543)\<close>

fun obs_series_loop ::
  "real list \<Rightarrow> real list \<Rightarrow> (nat \<times> real) list \<Rightarrow> real list \<times> real list
     \<Rightarrow> error + (real list \<times> real list)" where
  "obs_series_loop periods errors [] acc = Inr acc"
| "obs_series_loop periods errors ((kk, prd_k) # rest) acc =
     ebind (py_index periods (kk + 1)) (\<lambda>prd_k_p_1.
     ebind (py_index errors kk) (\<lambda>e_k.
     ebind (py_index errors (kk + 1)) (\<lambda>e_k_p_1.
       obs_series_loop periods errors rest
         (fst acc @ [\<bar>prd_k - prd_k_p_1\<bar> * 86400],
          snd acc @ [sqrt (e_k\<^sup>2 + e_k_p_1\<^sup>2) * 86400]))))"

definition generate_obs_series :: "real list \<Rightarrow> real list \<Rightarrow> error + (real list \<times> real list)" where
  "generate_obs_series periods errors =
     obs_series_loop periods errors (List.enumerate 0 (butlast periods)) ([], [])"

fun thry_series_loop :: "real list \<Rightarrow> (nat \<times> real) list \<Rightarrow> real list \<Rightarrow> error + real list" where
  "thry_series_loop periods [] acc = Inr acc"
| "thry_series_loop periods ((kk, prd_k) # rest) acc =
     ebind (py_index periods (kk + 1)) (\<lambda>prd_k_p_1.
       thry_series_loop periods rest (acc @ [\<bar>prd_k - prd_k_p_1\<bar> * 86400]))"

definition generate_thry_series :: "real list \<Rightarrow> error + real list" where
  "generate_thry_series periods =
     thry_series_loop periods (List.enumerate 0 (butlast periods)) []"

text \<open>
  \<^verbatim>\<open>np.sum(((obs_series - thr_series) / obs_series_errors)**2) / len(obs_series)\<close>;
  the three arrays have the same length where the code computes it.
\<close>

definition series_chisq :: "real list \<Rightarrow> real list \<Rightarrow> real list \<Rightarrow> real" where
  "series_chisq obs_series thr_series obs_series_errors =
     sum_list (map (\<lambda>(ob, th, er). ((ob - th) / er)\<^sup>2)
                 (zip obs_series (zip thr_series obs_series_errors)))
       / real (length obs_series)"

subsection \<open>The engine (lines 425-563, \<^verbatim>\<open>plot=False\<close>)\<close>

definition chisq_longest_sequence ::
  "real list \<Rightarrow> int list \<Rightarrow> real list \<Rightarrow> real list \<Rightarrow> error + (real \<times> real list \<times> int list)" where
  "chisq_longest_sequence tperiods orders operiods operiods_errors =
     (if length tperiods < length operiods
      then Inr (10 ^ 16, replicate (length operiods) (- 1), replicate (length operiods) (- 1))
      else
        ebind (sequence_matcher tperiods orders operiods operiods_errors) (\<lambda>pairs_orders.
        ebind (increase_or_decrease orders) (\<lambda>inc.
        ebind (sequence_selector (run_segmenter inc pairs_orders)) (\<lambda>lseq.
        ebind (pattern_aligner tperiods orders operiods lseq) (\<lambda>aligned.
          let final_theoretical_periods = map fst aligned;
              corresponding_orders = map snd aligned
          in
          ebind (generate_obs_series operiods operiods_errors) (\<lambda>(obs_series, obs_series_errors).
          ebind (generate_thry_series final_theoretical_periods) (\<lambda>thr_series.
            Inr (series_chisq obs_series thr_series obs_series_errors,
                 final_theoretical_periods, corresponding_orders))))))))"

subsection \<open>Building a series from one given pulsation (lines 231-275, \<^verbatim>\<open>plot=False\<close>)\<close>

text \<open>\<^verbatim>\<open>xs[st:en]\<close> for \<open>st, en \<ge> 0\<close>; a slice never raises.\<close>

definition py_slice :: "'a list \<Rightarrow> nat \<Rightarrow> nat \<Rightarrow> 'a list" where
  "py_slice xs st en = take (en - st) (drop st xs)"

text \<open>
  \<^verbatim>\<open>Obs_to_build_from\<close> is a float or \<^verbatim>\<open>None\<close> (the placeholder of line 177); comparing
  an array with \<^verbatim>\<open>None\<close> holds nowhere, so that \<^verbatim>\<open>[0][0]\<close> raises IndexError.
\<close>

definition puls_series_from_given_puls ::
  "real list \<Rightarrow> real list \<Rightarrow> real option \<Rightarrow> error + real list" where
  "puls_series_from_given_puls TheoIn Obs Obs_to_build_from =
     (case Obs_to_build_from of
        None \<Rightarrow> Inl IndexError
      | Some v \<Rightarrow>
          ebind (py_index (np_where_eq Obs v) 0) (\<lambda>nth_obs.
            let diff = map (\<lambda>t. \<bar>t - v\<bar>) TheoIn in
            ebind (py_min diff) (\<lambda>m.
            ebind (py_index (np_where_eq diff m) 0) (\<lambda>index.
              let upper = index + (length Obs - nth_obs);
                  Theo_sequence =
                    (if int index - int nth_obs < 0
                     then replicate (nat \<bar>int index - int nth_obs\<bar>) (- 1) @ py_slice TheoIn 0 upper
                     else py_slice TheoIn (index - nth_obs) upper)
              in Inr (if upper > length TheoIn
                      then Theo_sequence @ replicate (upper - length TheoIn) (- 1)
                      else Theo_sequence)))))"

subsection \<open>The loop over the parts of an interrupted pattern (lines 163-228)\<close>

text \<open>\<^verbatim>\<open>np.where(cond(xs))[0]\<close> and \<^verbatim>\<open>np.delete(xs, idxs)\<close>; the latter returns a new array.\<close>

definition np_where :: "('a \<Rightarrow> bool) \<Rightarrow> 'a list \<Rightarrow> nat list" where
  "np_where P xs = filter (\<lambda>i. P (xs ! i)) [0..<length xs]"

definition np_delete :: "'a list \<Rightarrow> nat list \<Rightarrow> 'a list" where
  "np_delete xs idxs = map (\<lambda>i. xs ! i) (filter (\<lambda>i. i \<notin> set idxs) [0..<length xs])"

text \<open>\<^verbatim>\<open>xs[-k]\<close> for \<open>k \<ge> 1\<close>.\<close>

definition py_index_from_end :: "'a list \<Rightarrow> nat \<Rightarrow> error + 'a" where
  "py_index_from_end xs k =
     (if k \<le> length xs then Inr (xs ! (length xs - k)) else Inl IndexError)"

text \<open>
  \<^verbatim>\<open>np.split(xs, idxs)\<close>: the slices between consecutive division points
  \<open>0, idxs, len(xs)\<close>.
\<close>

definition np_split :: "'a list \<Rightarrow> nat list \<Rightarrow> 'a list list" where
  "np_split xs idxs =
     map (\<lambda>(st, en). py_slice xs st en) (zip (0 # idxs) (idxs @ [length xs]))"

text \<open>Elementwise \<^verbatim>\<open>xs / ys\<close> of two arrays, with numpy's broadcasting of a length-1 array.\<close>

definition np_divide :: "real list \<Rightarrow> real list \<Rightarrow> error + real list" where
  "np_divide xs ys =
     (if length xs = length ys then Inr (map (\<lambda>(x, y). x / y) (zip xs ys))
      else if length ys = 1 then Inr (map (\<lambda>x. x / ys ! 0) xs)
      else if length xs = 1 then Inr (map (\<lambda>y. xs ! 0 / y) ys)
      else Inl ValueError)"

text \<open>
  Lines 187-193 and 199-205: the statement \<^verbatim>\<open>np.delete(...)\<close>. The value is the array
  that \<^verbatim>\<open>np.delete\<close> returns (the array itself where the call is not reached); the source
  binds it to no name.
\<close>

definition delete_chosen ::
  "string \<Rightarrow> real list \<Rightarrow> real list \<Rightarrow> int list \<Rightarrow> real list \<Rightarrow> error + real list" where
  "delete_chosen which_observable freqs periods orders ouput_pulsations =
     (if which_observable = ''frequency'' then
        (if length ouput_pulsations > 0 then
           ebind (py_index orders 1) (\<lambda>o1.
           ebind (py_index orders 0) (\<lambda>o0.
             if o1 = o0 - 1
             then ebind (py_index_from_end ouput_pulsations 2) (\<lambda>v.
                    Inr (np_delete freqs (np_where (\<lambda>f. f \<ge> v) freqs)))
             else ebind (py_max ouput_pulsations) (\<lambda>v.
                    Inr (np_delete freqs (np_where (\<lambda>f. f \<le> v) freqs)))))
         else Inr freqs)
      else if which_observable = ''period'' then
        (if length ouput_pulsations > 0 then
           ebind (py_index orders 1) (\<lambda>o1.
           ebind (py_index orders 0) (\<lambda>o0.
             if o1 = o0 - 1
             then ebind (py_max ouput_pulsations) (\<lambda>v.
                    Inr (np_delete periods (np_where (\<lambda>p. p \<le> v) periods)))
             else ebind (py_index_from_end ouput_pulsations 2) (\<lambda>v.
                    Inr (np_delete periods (np_where (\<lambda>p. p \<ge> v) periods)))))
         else Inr periods)
      else Inl SystemExit)"

text \<open>
  Lines 194-197, 206-209 and 213-224: the series of one part, built from the arrays
  \<open>freqs\<close> and \<open>periods\<close> it is given. Where the engine has too few theoretical periods it
  returns a Python list, and \<^verbatim>\<open>1/final_theoretical_periods\<close> raises TypeError.
\<close>

definition select_pulsations ::
  "string \<Rightarrow> string \<Rightarrow> real list \<Rightarrow> real list \<Rightarrow> int list
     \<Rightarrow> real list \<Rightarrow> real list \<Rightarrow> real option \<Rightarrow> error + real list" where
  "select_pulsations method_build_series which_observable freqs periods orders
       Obs_part ObsErr_part highest_amp_puls_part =
     ebind
       (if which_observable = ''frequency'' then
          ebind (np_divide ObsErr_part (map (\<lambda>x. x\<^sup>2) Obs_part)) (\<lambda>ObsErr_P.
          ebind (py_max Obs_part) (\<lambda>highest_obs_freq.
            Inr (freqs, map (\<lambda>x. 1 / x) Obs_part, ObsErr_P, highest_obs_freq)))
        else if which_observable = ''period'' then
          ebind (py_min Obs_part) (\<lambda>highest_obs_freq.
            Inr (periods, Obs_part, ObsErr_part, highest_obs_freq))
        else Inl SystemExit)
       (\<lambda>(Theo_value, ObsPeriod, ObsErr_P, highest_obs_freq).
          if method_build_series = ''highest_amplitude'' then
            puls_series_from_given_puls Theo_value Obs_part highest_amp_puls_part
          else if method_build_series = ''highest_frequency'' then
            puls_series_from_given_puls Theo_value Obs_part (Some highest_obs_freq)
          else if method_build_series = ''chisq_longest_sequence'' then
            ebind (chisq_longest_sequence periods orders ObsPeriod ObsErr_P)
              (\<lambda>(series_chi2, final_theoretical_periods, corresponding_orders).
                 if which_observable = ''frequency'' then
                   (if length periods < length ObsPeriod then Inl TypeError
                    else Inr (map (\<lambda>p. 1 / p) final_theoretical_periods))
                 else Inr final_theoretical_periods)
          else Inl SystemExit)"

text \<open>The body of the loop of line 184; the state is \<^verbatim>\<open>ouput_pulsations\<close>.\<close>

definition pattern_part ::
  "string \<Rightarrow> string \<Rightarrow> real list \<Rightarrow> real list \<Rightarrow> int list \<Rightarrow> real list
     \<Rightarrow> real list \<times> real list \<times> real option \<Rightarrow> error + real list" where
  "pattern_part method_build_series which_observable freqs periods orders ouput_pulsations part =
     (case part of (Obs_part, ObsErr_part, highest_amp_puls_part) \<Rightarrow>
        let ouput_pulsations =
              (if length ouput_pulsations > 0 then ouput_pulsations @ [0] else ouput_pulsations)
        in
        ebind (delete_chosen which_observable freqs periods orders ouput_pulsations)
          (\<lambda>deleted.
        ebind (select_pulsations method_build_series which_observable freqs periods orders
                 Obs_part ObsErr_part highest_amp_puls_part)
          (\<lambda>selected_theoretical_pulsations.
             Inr (ouput_pulsations @ selected_theoretical_pulsations))))"

fun pattern_loop ::
  "string \<Rightarrow> string \<Rightarrow> real list \<Rightarrow> real list \<Rightarrow> int list
     \<Rightarrow> (real list \<times> real list \<times> real option) list \<Rightarrow> real list \<Rightarrow> error + real list" where
  "pattern_loop method_build_series which_observable freqs periods orders [] ouput_pulsations =
     Inr ouput_pulsations"
| "pattern_loop method_build_series which_observable freqs periods orders (part # parts)
       ouput_pulsations =
     ebind (pattern_part method_build_series which_observable freqs periods orders
              ouput_pulsations part)
       (\<lambda>ouput_pulsations'.
          pattern_loop method_build_series which_observable freqs periods orders parts
            ouput_pulsations')"

text \<open>
  \<^verbatim>\<open>theoretical_pattern_from_dfrow\<close> from line 163 on: \<open>parameters\<close>, \<open>freqs\<close> and \<open>orders\<close>
  are what lines 159-162 and 180-181 read from the row. The \<open>i\<close>-th zero of \<open>Obs\<close> sits at
  an index \<open>\<ge> i\<close>, so the subtraction of line 168 is the one of \<^typ>\<open>nat\<close>.
\<close>

definition theoretical_pattern_from_dfrow ::
  "real list \<Rightarrow> real list \<Rightarrow> int list \<Rightarrow> string \<Rightarrow> real list \<Rightarrow> real list \<Rightarrow> string
     \<Rightarrow> real list \<Rightarrow> error + real list" where
  "theoretical_pattern_from_dfrow parameters freqs orders method_build_series Obs ObsErr
       which_observable highest_amp_puls =
     (let periods = map (\<lambda>f. 1 / f) freqs;
          missing_puls0 = np_where_eq Obs 0;
          Obs1 = filter (\<lambda>x. x \<noteq> 0) Obs;
          ObsErr1 = filter (\<lambda>x. x \<noteq> 0) ObsErr;
          missing_puls = map (\<lambda>i. missing_puls0 ! i - i) [0..<length missing_puls0];
          Obs_pattern_parts = np_split Obs1 missing_puls;
          ObsErr_pattern_parts = np_split ObsErr1 missing_puls
      in
      ebind
        (if length Obs_pattern_parts \<noteq> length highest_amp_puls
         then (if method_build_series = ''highest_amplitude'' then Inl SystemExit
               else Inr (replicate (length Obs_pattern_parts) None))
         else Inr (map Some highest_amp_puls))
        (\<lambda>highest_amp_puls'.
      ebind (pattern_loop method_build_series which_observable freqs periods orders
               (zip Obs_pattern_parts (zip ObsErr_pattern_parts highest_amp_puls')) [])
        (\<lambda>ouput_pulsations. Inr (parameters @ ouput_pulsations))))"

text \<open>
  The loop with the \<^verbatim>\<open>np.delete\<close> statement left out: every part is matched against the
  arrays as they were given. It is the right-hand side of the frame property of the loop
  above.
\<close>

fun pattern_loop_full_spectrum ::
  "string \<Rightarrow> string \<Rightarrow> real list \<Rightarrow> real list \<Rightarrow> int list
     \<Rightarrow> (real list \<times> real list \<times> real option) list \<Rightarrow> real list \<Rightarrow> error + real list" where
  "pattern_loop_full_spectrum method_build_series which_observable freqs periods orders []
       ouput_pulsations = Inr ouput_pulsations"
| "pattern_loop_full_spectrum method_build_series which_observable freqs periods orders
       ((Obs_part, ObsErr_part, highest_amp_puls_part) # parts) ouput_pulsations =
     ebind (select_pulsations method_build_series which_observable freqs periods orders
              Obs_part ObsErr_part highest_amp_puls_part)
       (\<lambda>selected.
          pattern_loop_full_spectrum method_build_series which_observable freqs periods orders
            parts
            ((if length ouput_pulsations > 0 then ouput_pulsations @ [0] else ouput_pulsations)
               @ selected))"

section \<open>Properties\<close>

subsection \<open>Array primitives\<close>

lemma ebind_simps [simp]:
  "ebind (Inl e) f = Inl e"
  "ebind (Inr x) f = f x"
  by (simp_all add: ebind_def)

lemma py_min_eq: "xs \<noteq> [] \<Longrightarrow> py_min xs = Inr (Min (set xs))"
  by (cases xs) (simp_all add: py_min_def Min.set_eq_fold[symmetric])

lemma py_max_eq: "xs \<noteq> [] \<Longrightarrow> py_max xs = Inr (Max (set xs))"
  by (cases xs) (simp_all add: py_max_def Max.set_eq_fold[symmetric])

lemma np_where_eq_set: "set (np_where_eq xs v) = {i. i < length xs \<and> xs ! i = v}"
  by (auto simp: np_where_eq_def)

lemma np_where_eq_nonempty: "v \<in> set xs \<Longrightarrow> np_where_eq xs v \<noteq> []"
proof -
  assume "v \<in> set xs"
  then obtain i where "i < length xs" "xs ! i = v" by (auto simp: in_set_conv_nth)
  then have "i \<in> set (np_where_eq xs v)" by (simp add: np_where_eq_set)
  then show ?thesis by auto
qed

lemma np_where_eq_sorted: "sorted_wrt (<) (np_where_eq xs v)"
  unfolding np_where_eq_def by (rule sorted_wrt_filter) (simp add: sorted_wrt_upt)

lemma np_where_eq_first:
  assumes "np_where_eq xs v \<noteq> []"
  shows "np_where_eq xs v ! 0 < length xs" "xs ! (np_where_eq xs v ! 0) = v"
    "\<forall>j < np_where_eq xs v ! 0. xs ! j \<noteq> v"
proof -
  let ?w = "np_where_eq xs v"
  have mem: "?w ! 0 \<in> set ?w" using assms by simp
  then show "?w ! 0 < length xs" "xs ! (?w ! 0) = v" by (simp_all add: np_where_eq_set)
  show "\<forall>j < ?w ! 0. xs ! j \<noteq> v"
  proof (intro allI impI notI)
    fix j assume j: "j < ?w ! 0" and eq: "xs ! j = v"
    have "j < length xs" using j \<open>?w ! 0 < length xs\<close> by simp
    then have "j \<in> set ?w" using eq by (simp add: np_where_eq_set)
    then obtain a where a: "a < length ?w" "?w ! a = j" by (auto simp: in_set_conv_nth)
    have "?w ! 0 \<le> ?w ! a"
    proof (cases "a = 0")
      case False
      then have "?w ! 0 < ?w ! a" using np_where_eq_sorted[of xs v] a(1)
        by (simp add: sorted_wrt_iff_nth_less)
      then show ?thesis by simp
    qed simp
    then show False using a(2) j by simp
  qed
qed

lemma np_take_first:
  assumes "idxs \<noteq> []" "\<forall>i \<in> set idxs. i < length xs"
  shows "ebind (np_take xs idxs) (\<lambda>ys. py_index ys 0) = Inr (xs ! (idxs ! 0))"
  using assms by (simp add: np_take_def py_index_def list_all_iff)

subsection \<open>The matcher\<close>

lemma best_pair_Inr:
  assumes T: "tperiods \<noteq> []" and lo: "length orders = length tperiods"
    and ii: "ii < length operiods_errors"
  shows "\<exists>j < length tperiods.
      (\<forall>j' < length tperiods. ((period - tperiods ! j) / operiods_errors ! ii)\<^sup>2 \<le> ((period - tperiods ! j') / operiods_errors ! ii)\<^sup>2) \<and>
      (\<forall>j' < j. ((period - tperiods ! j) / operiods_errors ! ii)\<^sup>2 < ((period - tperiods ! j') / operiods_errors ! ii)\<^sup>2) \<and>
      best_pair tperiods orders operiods_errors ii period =
        Inr \<lparr>obs_period = period, best_match = tperiods ! j, best_order = orders ! j,
             chisq = ((period - tperiods ! j) / operiods_errors ! ii)\<^sup>2\<rparr>"
proof -
  let ?e = "operiods_errors ! ii"
  let ?c = "chisqs_of tperiods period ?e"
  let ?m = "Min (set ?c)"
  let ?w = "np_where_eq ?c ?m"
  let ?j = "?w ! 0"
  have len: "length ?c = length tperiods" by (simp add: chisqs_of_def)
  have cne: "?c \<noteq> []" using T by (simp add: chisqs_of_def)
  have nth: "\<And>j. j < length tperiods \<Longrightarrow> ?c ! j = ((period - tperiods ! j) / ?e)\<^sup>2"
    by (simp add: chisqs_of_def)
  have "?m \<in> set ?c" using cne by (intro Min_in) simp_all
  then have wne: "?w \<noteq> []" by (rule np_where_eq_nonempty)
  note f = np_where_eq_first[OF wne]
  have jT: "?j < length tperiods" using f(1) len by simp
  have bound: "\<forall>i \<in> set ?w. i < length tperiods" using len by (simp add: np_where_eq_set)
  have min_le: "\<And>j'. j' < length tperiods \<Longrightarrow> ?c ! ?j \<le> ?c ! j'"
  proof -
    fix j' assume "j' < length tperiods"
    then have "?c ! j' \<in> set ?c" using len by simp
    then have "?m \<le> ?c ! j'" by (intro Min_le) simp_all
    then show "?c ! ?j \<le> ?c ! j'" using f(2) by simp
  qed
  have min_lt: "\<And>j'. j' < ?j \<Longrightarrow> ?c ! ?j < ?c ! j'"
  proof -
    fix j' assume a: "j' < ?j"
    then have "?c ! j' \<noteq> ?m" using f(3) by simp
    moreover have "?c ! ?j \<le> ?c ! j'" using a jT by (intro min_le) simp
    ultimately show "?c ! ?j < ?c ! j'" using f(2) by simp
  qed
  have bp: "best_pair tperiods orders operiods_errors ii period =
        Inr \<lparr>obs_period = period, best_match = tperiods ! ?j, best_order = orders ! ?j,
             chisq = ?c ! ?j\<rparr>"
  proof -
    have e: "py_index operiods_errors ii = Inr ?e" using ii by (simp add: py_index_def)
    have bo: "\<forall>i \<in> set ?w. i < length orders" using bound lo by simp
    have bc: "\<forall>i \<in> set ?w. i < length ?c" using bound len by simp
    show ?thesis
      by (simp add: best_pair_def e py_min_eq[OF cne] Let_def
            np_take_first[OF wne bound] np_take_first[OF wne bo] np_take_first[OF wne bc])
  qed
  show ?thesis
  proof (intro exI[of _ ?j] conjI allI impI)
    show "?j < length tperiods" by (rule jT)
  next
    fix j' assume "j' < length tperiods"
    then show "((period - tperiods ! ?j) / ?e)\<^sup>2 \<le> ((period - tperiods ! j') / ?e)\<^sup>2"
      using min_le[of j'] nth jT by simp
  next
    fix j' assume a: "j' < ?j"
    then have "j' < length tperiods" using jT by simp
    then show "((period - tperiods ! ?j) / ?e)\<^sup>2 < ((period - tperiods ! j') / ?e)\<^sup>2"
      using min_lt[OF a] nth jT by simp
  next
    show "best_pair tperiods orders operiods_errors ii period =
      Inr \<lparr>obs_period = period, best_match = tperiods ! ?j, best_order = orders ! ?j,
           chisq = ((period - tperiods ! ?j) / ?e)\<^sup>2\<rparr>"
      using bp nth[OF jT] by simp
  qed
qed

lemma match_loop_all:
  assumes "\<forall>x \<in> set es. \<exists>p. best_pair tperiods orders errs (fst x) (snd x) = Inr p"
  shows "\<exists>ps. match_loop tperiods orders errs es acc = Inr (acc @ ps) \<and> length ps = length es \<and>
      (\<forall>i < length es. best_pair tperiods orders errs (fst (es ! i)) (snd (es ! i)) = Inr (ps ! i))"
  using assms
proof (induction es arbitrary: acc)
  case Nil
  then show ?case by simp
next
  case (Cons x es)
  obtain ii period where x: "x = (ii, period)" by (cases x)
  from Cons.prems obtain p where p: "best_pair tperiods orders errs ii period = Inr p"
    using x by auto
  from Cons.prems have "\<forall>x \<in> set es. \<exists>p. best_pair tperiods orders errs (fst x) (snd x) = Inr p"
    by simp
  from Cons.IH[OF this, of "acc @ [p]"] obtain ps where
    ps: "match_loop tperiods orders errs es (acc @ [p]) = Inr ((acc @ [p]) @ ps)"
      "length ps = length es"
      "\<forall>i < length es. best_pair tperiods orders errs (fst (es ! i)) (snd (es ! i)) = Inr (ps ! i)"
    by blast
  show ?case
  proof (intro exI[of _ "p # ps"] conjI allI impI)
    show "match_loop tperiods orders errs (x # es) acc = Inr (acc @ p # ps)"
      using p ps(1) x by simp
    show "length (p # ps) = length (x # es)" using ps(2) by simp
    fix i assume "i < length (x # es)"
    then show "best_pair tperiods orders errs (fst ((x # es) ! i)) (snd ((x # es) ! i)) = Inr ((p # ps) ! i)"
      using p ps(3) x by (cases i) simp_all
  qed
qed

text \<open>
  C3. With at least as many theoretical as observed periods, one radial order per
  theoretical period and one positive error per observed period, the matcher returns one
  pair per observed period; the pair of \<open>p\<^sub>i\<close> holds \<open>p\<^sub>i\<close>, the theoretical period
  and order at an index \<open>j\<close>, and \<open>((p\<^sub>i - t\<^sub>j) / \<sigma>\<^sub>i)\<^sup>2\<close>, where \<open>j\<close> minimises that
  chi-square over the whole spectrum and every earlier index has a strictly larger one
  (first occurrence wins a tie).
\<close>

theorem sequence_matcher_correct:
  assumes "length operiods \<le> length tperiods"
    and "length orders = length tperiods"
    and "length operiods_errors = length operiods"
    and "\<forall>e \<in> set operiods_errors. 0 < e"
  shows "\<exists>pairs. sequence_matcher tperiods orders operiods operiods_errors = Inr pairs \<and>
     length pairs = length operiods \<and>
     (\<forall>i < length operiods. \<exists>j < length tperiods.
        (\<forall>j' < length tperiods.
           ((operiods ! i - tperiods ! j) / operiods_errors ! i)\<^sup>2
             \<le> ((operiods ! i - tperiods ! j') / operiods_errors ! i)\<^sup>2) \<and>
        (\<forall>j' < j.
           ((operiods ! i - tperiods ! j) / operiods_errors ! i)\<^sup>2
             < ((operiods ! i - tperiods ! j') / operiods_errors ! i)\<^sup>2) \<and>
        pairs ! i = \<lparr>obs_period = operiods ! i, best_match = tperiods ! j,
                     best_order = orders ! j,
                     chisq = ((operiods ! i - tperiods ! j) / operiods_errors ! i)\<^sup>2\<rparr>)"
proof -
  let ?es = "List.enumerate 0 operiods"
  have ok: "\<forall>x \<in> set ?es. \<exists>p. best_pair tperiods orders operiods_errors (fst x) (snd x) = Inr p"
  proof
    fix x assume "x \<in> set ?es"
    then have "fst x < length operiods" by (auto simp: in_set_enumerate_eq)
    then have "fst x < length operiods_errors" "tperiods \<noteq> []" using assms(1,3) by auto
    from best_pair_Inr[OF this(2) assms(2) this(1)]
    show "\<exists>p. best_pair tperiods orders operiods_errors (fst x) (snd x) = Inr p" by blast
  qed
  from match_loop_all[OF ok, of "[]"] obtain ps where
    ps: "match_loop tperiods orders operiods_errors ?es [] = Inr ps" "length ps = length operiods"
      "\<forall>i < length operiods. best_pair tperiods orders operiods_errors (fst (?es ! i)) (snd (?es ! i)) = Inr (ps ! i)"
    by auto
  show ?thesis
  proof (intro exI[of _ ps] conjI allI impI)
    show "sequence_matcher tperiods orders operiods operiods_errors = Inr ps"
      using ps(1) by (simp add: sequence_matcher_def)
    show "length ps = length operiods" by (rule ps(2))
    fix i assume i: "i < length operiods"
    then have bp: "best_pair tperiods orders operiods_errors i (operiods ! i) = Inr (ps ! i)"
      using ps(3) by (simp add: nth_enumerate_eq)
    have "i < length operiods_errors" "tperiods \<noteq> []" using i assms(1,3) by auto
    from best_pair_Inr[OF this(2) assms(2) this(1), of "operiods ! i"] bp
    show "\<exists>j < length tperiods.
        (\<forall>j' < length tperiods.
           ((operiods ! i - tperiods ! j) / operiods_errors ! i)\<^sup>2
             \<le> ((operiods ! i - tperiods ! j') / operiods_errors ! i)\<^sup>2) \<and>
        (\<forall>j' < j.
           ((operiods ! i - tperiods ! j) / operiods_errors ! i)\<^sup>2
             < ((operiods ! i - tperiods ! j') / operiods_errors ! i)\<^sup>2) \<and>
        ps ! i = \<lparr>obs_period = operiods ! i, best_match = tperiods ! j,
                     best_order = orders ! j,
                     chisq = ((operiods ! i - tperiods ! j) / operiods_errors ! i)\<^sup>2\<rparr>"
      by auto
  qed
qed

theorem sequence_matcher_correct_witness:
  "length [1.05, 1.22 :: real] \<le> length [1.0, 1.1, 1.2, 1.3, 1.4 :: real] \<and>
   length [- 5, - 4, - 3, - 2, - 1 :: int] = length [1.0, 1.1, 1.2, 1.3, 1.4 :: real] \<and>
   length [0.01, 0.01 :: real] = length [1.05, 1.22 :: real] \<and>
   (0 :: real) < 0.01 \<and>
   (\<exists>pairs. sequence_matcher [1.0, 1.1, 1.2, 1.3, 1.4] [- 5, - 4, - 3, - 2, - 1]
        [1.05, 1.22] [0.01, 0.01] = Inr pairs \<and> length pairs = 2)"
proof -
  have h1: "length [1.05, 1.22 :: real] \<le> length [1.0, 1.1, 1.2, 1.3, 1.4 :: real]" by simp
  have h2: "length [- 5, - 4, - 3, - 2, - 1 :: int] = length [1.0, 1.1, 1.2, 1.3, 1.4 :: real]"
    by simp
  have h3: "length [0.01, 0.01 :: real] = length [1.05, 1.22 :: real]" by simp
  have h4: "\<forall>e \<in> set [0.01, 0.01 :: real]. 0 < e" by simp
  from sequence_matcher_correct [OF h1 h2 h3 h4] obtain pairs where
    "sequence_matcher [1.0, 1.1, 1.2, 1.3, 1.4] [- 5, - 4, - 3, - 2, - 1]
        [1.05, 1.22] [0.01, 0.01] = Inr pairs" "length pairs = length [1.05, 1.22 :: real]"
    by blast
  then have "\<exists>pairs. sequence_matcher [1.0, 1.1, 1.2, 1.3, 1.4] [- 5, - 4, - 3, - 2, - 1]
        [1.05, 1.22] [0.01, 0.01] = Inr pairs \<and> length pairs = 2"
    by simp
  then show ?thesis using h1 h2 h3 by simp
qed

subsection \<open>Too few theoretical periods\<close>

text \<open>
  With fewer theoretical than observed periods the engine returns, whatever the orders and
  errors are and without matching or splitting anything, the penalty \<open>10\<^sup>1\<^sup>6\<close> with
  a pattern of \<open>-1\<close> periods and \<open>-1\<close> orders, one per observed period. On the period
  path the caller passes that pattern on; on the frequency path it applies \<^verbatim>\<open>1/\<close> to the
  returned Python list and raises TypeError.
\<close>

lemma insufficient_theory_sentinel:
  "length tperiods < length operiods \<Longrightarrow>
   chisq_longest_sequence tperiods orders operiods operiods_errors =
     Inr (10 ^ 16, replicate (length operiods) (- 1), replicate (length operiods) (- 1))"
  by (simp add: chisq_longest_sequence_def)

lemma frequency_sentinel_raises:
  assumes "length periods < length Obs_part" and "length ObsErr_part = length Obs_part"
  shows "select_pulsations ''chisq_longest_sequence'' ''frequency'' freqs periods orders
           Obs_part ObsErr_part highest_amp_puls_part = Inl TypeError"
proof -
  have ne: "Obs_part \<noteq> []" using assms(1) by auto
  have d: "np_divide ObsErr_part (map (\<lambda>x. x\<^sup>2) Obs_part) =
      Inr (map (\<lambda>(x, y). x / y) (zip ObsErr_part (map (\<lambda>x. x\<^sup>2) Obs_part)))"
    using assms(2) by (simp add: np_divide_def)
  show ?thesis
    using assms(1) by (simp add: select_pulsations_def d py_max_eq[OF ne] chisq_longest_sequence_def)
qed

lemma period_sentinel_passes:
  assumes "length periods < length Obs_part"
  shows "select_pulsations ''chisq_longest_sequence'' ''period'' freqs periods orders
           Obs_part ObsErr_part highest_amp_puls_part = Inr (replicate (length Obs_part) (- 1))"
proof -
  have ne: "Obs_part \<noteq> []" using assms(1) by auto
  show ?thesis
    using assms(1) by (simp add: select_pulsations_def py_min_eq[OF ne] chisq_longest_sequence_def)
qed

text \<open>
  C6 (the code departs from the claim). A model with two theoretical frequencies and three
  observed ones: with the observable \<^verbatim>\<open>'frequency'\<close> the construction of its pattern ends
  in TypeError, a hard failure and no sentinel pattern; with the same data given as periods
  the model gets the pattern of three \<open>-1\<close>.
\<close>

theorem frequency_path_aborts:
  "theoretical_pattern_from_dfrow [] [1, 1 / 2] [- 1, - 2] ''chisq_longest_sequence''
     [1, 1 / 2, 1 / 4] [0.1, 0.1, 0.1] ''frequency'' [] = Inl TypeError \<and>
   theoretical_pattern_from_dfrow [] [1, 1 / 2] [- 1, - 2] ''chisq_longest_sequence''
     [1, 2, 4] [0.1, 0.1, 0.1] ''period'' [] = Inr [- 1, - 1, - 1]"
  by (simp add: theoretical_pattern_from_dfrow_def np_where_eq_def np_split_def py_slice_def
        pattern_part_def delete_chosen_def frequency_sentinel_raises period_sentinel_passes
        numeral_3_eq_3)

subsection \<open>A single observed period\<close>

lemma run_segmenter_single: "run_segmenter inc [p] = []"
  by (simp add: run_segmenter_def)

lemma sequence_selector_Nil: "sequence_selector [] = Inl ValueError"
  by (simp add: sequence_selector_def py_max_def)

text \<open>
  With one observed period the loop over \<^verbatim>\<open>pairs_orders[:-1]\<close> has no pass, no sequence
  is stored and the engine ends in an exception, whatever the other inputs are.
\<close>

lemma single_period_fails:
  assumes "length operiods = 1" and "1 \<le> length tperiods"
  shows "\<exists>e. chisq_longest_sequence tperiods orders operiods operiods_errors = Inl e"
proof -
  obtain p where p: "operiods = [p]" using assms(1) by (cases operiods) auto
  show ?thesis
  proof (cases "best_pair tperiods orders operiods_errors 0 p")
    case (Inl e)
    then show ?thesis using assms(2)
      by (auto simp add: chisq_longest_sequence_def sequence_matcher_def p)
  next
    case (Inr pr)
    then show ?thesis using assms(2)
      by (cases "increase_or_decrease orders")
         (auto simp add: chisq_longest_sequence_def sequence_matcher_def p
            run_segmenter_single sequence_selector_Nil)
  qed
qed

text \<open>
  C2 (the code departs from the claim). For the observed segment \<open>[1.05]\<close> with error
  \<open>0.01\<close> and the theoretical periods \<open>[1.0, 1.1]\<close> of orders \<open>[-2, -1]\<close>, the engine
  raises ValueError (\<^verbatim>\<open>max\<close> of the empty list of sequence lengths): no run is returned
  and none is selected.
\<close>

theorem single_period_ValueError:
  "chisq_longest_sequence [1.0, 1.1] [- 2, - 1] [1.05] [0.01] = Inl ValueError"
  by (simp add: chisq_longest_sequence_def sequence_matcher_def best_pair_def chisqs_of_def
        py_index_def py_min_def np_where_eq_def np_take_def increase_or_decrease_def
        run_segmenter_single sequence_selector_Nil)

subsection \<open>The selector\<close>

lemma np_where_eq_nth_mono:
  assumes "a < length (np_where_eq xs v)" "b < length (np_where_eq xs v)"
    and "np_where_eq xs v ! a < np_where_eq xs v ! b"
  shows "a < b"
proof (rule ccontr)
  assume "\<not> a < b"
  then consider "a = b" | "b < a" by linarith
  then show False
  proof cases
    case 1 then show ?thesis using assms(3) by simp
  next
    case 2
    then have "np_where_eq xs v ! b < np_where_eq xs v ! a"
      using np_where_eq_sorted[of xs v] assms(1) by (simp add: sorted_wrt_iff_nth_less)
    then show ?thesis using assms(3) by simp
  qed
qed

lemma sequence_selector_unique:
  assumes "py_max (map length sequences) = Inr m"
    and "np_where_eq (map length sequences) m = [k]"
    and "k < length sequences"
  shows "sequence_selector sequences = Inr (sequences ! k)"
  using assms by (simp add: sequence_selector_def Let_def py_index_def)

lemma sequence_selector_tied:
  assumes "py_max (map length sequences) = Inr m"
    and "np_where_eq (map length sequences) m = lg"
    and "length lg \<noteq> 1"
    and "np_take sequences lg = Inr tied"
    and "py_min (map score tied) = Inr ms"
    and "py_index (np_where_eq (map score tied) ms) 0 = Inr a"
    and "py_index lg a = Inr k"
    and "py_index sequences k = Inr r"
  shows "sequence_selector sequences = Inr r"
  using assms by (simp add: sequence_selector_def Let_def)

text \<open>The selector in terms of \<open>score\<close>, the quotient of line 506.\<close>

lemma sequence_selector_by_score:
  assumes ne: "sequences \<noteq> []" and runs: "\<forall>s \<in> set sequences. s \<noteq> []"
  shows "\<exists>k < length sequences.
     sequence_selector sequences = Inr (sequences ! k) \<and>
     (\<forall>j < length sequences. length (sequences ! j) \<le> length (sequences ! k)) \<and>
     (\<forall>j < length sequences. length (sequences ! j) = length (sequences ! k) \<longrightarrow>
        score (sequences ! k) \<le> score (sequences ! j)) \<and>
     (\<forall>j < k. length (sequences ! j) = length (sequences ! k) \<longrightarrow>
        score (sequences ! k) < score (sequences ! j))"
proof -
  define ll where "ll = map length sequences"
  define m where "m = Max (set ll)"
  define lg where "lg = np_where_eq ll m"
  have llne: "ll \<noteq> []" using ne by (simp add: ll_def)
  have ll_nth: "\<And>j. j < length sequences \<Longrightarrow> ll ! j = length (sequences ! j)"
    by (simp add: ll_def)
  have ll_len: "length ll = length sequences" by (simp add: ll_def)
  have pm: "py_max (map length sequences) = Inr m"
    using py_max_eq[OF llne] by (simp add: m_def ll_def)
  have "m \<in> set ll" unfolding m_def using llne by (intro Max_in) simp_all
  then have lgne: "lg \<noteq> []" unfolding lg_def by (rule np_where_eq_nonempty)
  have lg_set: "set lg = {i. i < length sequences \<and> length (sequences ! i) = m}"
    unfolding lg_def np_where_eq_set using ll_nth ll_len by auto
  have le_m: "length (sequences ! j) \<le> m" if "j < length sequences" for j
  proof -
    have "ll ! j \<in> set ll" using that ll_len by simp
    then have "ll ! j \<le> m" unfolding m_def by (intro Max_ge) simp_all
    then show ?thesis using ll_nth[OF that] by simp
  qed
  have in_lg: "lg ! a < length sequences \<and> length (sequences ! (lg ! a)) = m"
    if "a < length lg" for a
  proof -
    have "lg ! a \<in> set lg" using that by simp
    then show ?thesis unfolding lg_set by simp
  qed
  have idx: "\<exists>b < length lg. lg ! b = j"
    if "j < length sequences" "length (sequences ! j) = m" for j
  proof -
    have "j \<in> set lg" unfolding lg_set using that by simp
    then show ?thesis by (auto simp: in_set_conv_nth)
  qed
  show ?thesis
  proof (cases "length lg = 1")
    case True
    define k where "k = lg ! 0"
    have lgk: "lg = [k]" using True by (cases lg) (simp_all add: k_def)
    have k: "k < length sequences" "length (sequences ! k) = m"
      using in_lg[of 0] lgne by (simp_all add: k_def)
    have only: "j = k" if "j < length sequences" "length (sequences ! j) = m" for j
      using idx[OF that] lgk by auto
    have sel: "sequence_selector sequences = Inr (sequences ! k)"
      by (rule sequence_selector_unique[OF pm _ k(1)]) (simp add: lgk[symmetric] lg_def ll_def)
    show ?thesis
    proof (intro exI[of _ k] conjI allI impI)
      show "k < length sequences" by (rule k(1))
      show "sequence_selector sequences = Inr (sequences ! k)" by (rule sel)
    next
      fix j assume "j < length sequences"
      then show "length (sequences ! j) \<le> length (sequences ! k)" using le_m k(2) by simp
    next
      fix j assume "j < length sequences" "length (sequences ! j) = length (sequences ! k)"
      then have "j = k" using only k(2) by simp
      then show "score (sequences ! k) \<le> score (sequences ! j)" by simp
    next
      fix j assume j: "j < k" "length (sequences ! j) = length (sequences ! k)"
      then have "j = k" using only[of j] k by simp
      then show "score (sequences ! k) < score (sequences ! j)" using j(1) by simp
    qed
  next
    case False
    define tied where "tied = map (\<lambda>i. sequences ! i) lg"
    define sc where "sc = map score tied"
    define ms where "ms = Min (set sc)"
    define w where "w = np_where_eq sc ms"
    define a where "a = w ! 0"
    define k where "k = lg ! a"
    have bound: "list_all (\<lambda>i. i < length sequences) lg"
      unfolding list_all_iff lg_set by simp
    have tk: "np_take sequences lg = Inr tied" using bound by (simp add: np_take_def tied_def)
    have scne: "sc \<noteq> []" using lgne by (simp add: sc_def tied_def)
    have lsc: "length sc = length lg" by (simp add: sc_def tied_def)
    have "ms \<in> set sc" unfolding ms_def using scne by (intro Min_in) simp_all
    then have wne: "w \<noteq> []" unfolding w_def by (rule np_where_eq_nonempty)
    note f = np_where_eq_first[OF wne[unfolded w_def], folded w_def a_def]
    have a: "a < length lg" using f(1) lsc by simp
    have k: "k < length sequences" "length (sequences ! k) = m"
      using in_lg[OF a] by (simp_all add: k_def)
    have sc_nth: "sc ! b = score (sequences ! (lg ! b))" if "b < length lg" for b
      using that by (simp add: sc_def tied_def)
    have sk: "score (sequences ! k) = ms" using f(2) sc_nth[OF a] by (simp add: k_def)
    have ge: "ms \<le> score (sequences ! (lg ! b))" if "b < length lg" for b
    proof -
      have "sc ! b \<in> set sc" using that lsc by simp
      then have "ms \<le> sc ! b" unfolding ms_def by (intro Min_le) simp_all
      then show ?thesis using sc_nth[OF that] by simp
    qed
    have sel: "sequence_selector sequences = Inr (sequences ! k)"
    proof (rule sequence_selector_tied[OF pm _ False tk])
      show "np_where_eq (map length sequences) m = lg" by (simp add: lg_def ll_def)
      show "py_min (map score tied) = Inr ms"
        using py_min_eq[OF scne] by (simp add: ms_def sc_def)
      show "py_index (np_where_eq (map score tied) ms) 0 = Inr a"
        using wne by (simp add: py_index_def a_def w_def sc_def)
      show "py_index lg a = Inr k" using a by (simp add: py_index_def k_def)
      show "py_index sequences k = Inr (sequences ! k)" using k(1) by (simp add: py_index_def)
    qed
    show ?thesis
    proof (intro exI[of _ k] conjI allI impI)
      show "k < length sequences" by (rule k(1))
      show "sequence_selector sequences = Inr (sequences ! k)" by (rule sel)
    next
      fix j assume "j < length sequences"
      then show "length (sequences ! j) \<le> length (sequences ! k)" using le_m k(2) by simp
    next
      fix j assume "j < length sequences" "length (sequences ! j) = length (sequences ! k)"
      then obtain b where b: "b < length lg" "lg ! b = j" using idx[of j] k(2) by auto
      then show "score (sequences ! k) \<le> score (sequences ! j)" using ge[OF b(1)] sk by simp
    next
      fix j assume j: "j < k" "length (sequences ! j) = length (sequences ! k)"
      then have "j < length sequences" using k(1) by simp
      then obtain b where b: "b < length lg" "lg ! b = j" using idx[of j] j(2) k(2) by auto
      have "lg ! b < lg ! a" using b(2) j(1) by (simp add: k_def)
      then have "b < a" using np_where_eq_nth_mono[of b ll m a] b(1) a by (simp add: lg_def)
      then have "sc ! b \<noteq> ms" using f(3) by simp
      then have "score (sequences ! j) \<noteq> ms" using sc_nth[OF b(1)] b(2) by simp
      then show "score (sequences ! k) < score (sequences ! j)"
        using ge[OF b(1)] b(2) sk by simp
    qed
  qed
qed

text \<open>
  C4. For a non-empty list of non-empty runs the selector returns the run at a position
  \<open>k\<close> such that no run is longer, no run of the same length has a smaller sum of
  chi-squares divided by its length, and every earlier run of the same length has a
  strictly larger one: the longest run, among the longest the one of least mean chi-square,
  among those the first. The witness is the case of two runs of length 3 with mean
  chi-squares 1.2 and 0.5 (and a shorter run between them): the run of mean 0.5 is
  returned, although its first chi-square is the larger one.
\<close>

theorem sequence_selector_correct:
  assumes ne: "sequences \<noteq> []" and runs: "\<forall>s \<in> set sequences. s \<noteq> []"
  shows "\<exists>k < length sequences.
     sequence_selector sequences = Inr (sequences ! k) \<and>
     (\<forall>j < length sequences. length (sequences ! j) \<le> length (sequences ! k)) \<and>
     (\<forall>j < length sequences. length (sequences ! j) = length (sequences ! k) \<longrightarrow>
        sum_list (map chisq (sequences ! k)) / real (length (sequences ! k))
          \<le> sum_list (map chisq (sequences ! j)) / real (length (sequences ! j))) \<and>
     (\<forall>j < k. length (sequences ! j) = length (sequences ! k) \<longrightarrow>
        sum_list (map chisq (sequences ! k)) / real (length (sequences ! k))
          < sum_list (map chisq (sequences ! j)) / real (length (sequences ! j)))"
  using sequence_selector_by_score[OF ne runs] unfolding score_def .

theorem sequence_selector_correct_witness:
  "[[\<lparr>obs_period = 1, best_match = 1, best_order = - 9, chisq = 0.2\<rparr>,
     \<lparr>obs_period = 2, best_match = 2, best_order = - 8, chisq = 1.0\<rparr>,
     \<lparr>obs_period = 3, best_match = 3, best_order = - 7, chisq = 2.4\<rparr>],
    [\<lparr>obs_period = 4, best_match = 4, best_order = - 5, chisq = 9\<rparr>],
    [\<lparr>obs_period = 5, best_match = 5, best_order = - 3, chisq = 0.9\<rparr>,
     \<lparr>obs_period = 6, best_match = 6, best_order = - 2, chisq = 0.3\<rparr>,
     \<lparr>obs_period = 7, best_match = 7, best_order = - 1, chisq = 0.3\<rparr>]] \<noteq> [] \<and>
   sum_list (map chisq
    [\<lparr>obs_period = 1, best_match = 1, best_order = - 9, chisq = 0.2\<rparr>,
     \<lparr>obs_period = 2, best_match = 2, best_order = - 8, chisq = 1.0\<rparr>,
     \<lparr>obs_period = 3, best_match = 3, best_order = - 7, chisq = 2.4\<rparr>]) / 3 = (1.2 :: real) \<and>
   sum_list (map chisq
    [\<lparr>obs_period = 5, best_match = 5, best_order = - 3, chisq = 0.9\<rparr>,
     \<lparr>obs_period = 6, best_match = 6, best_order = - 2, chisq = 0.3\<rparr>,
     \<lparr>obs_period = 7, best_match = 7, best_order = - 1, chisq = 0.3\<rparr>]) / 3 = (0.5 :: real) \<and>
   sequence_selector
   [[\<lparr>obs_period = 1, best_match = 1, best_order = - 9, chisq = 0.2\<rparr>,
     \<lparr>obs_period = 2, best_match = 2, best_order = - 8, chisq = 1.0\<rparr>,
     \<lparr>obs_period = 3, best_match = 3, best_order = - 7, chisq = 2.4\<rparr>],
    [\<lparr>obs_period = 4, best_match = 4, best_order = - 5, chisq = 9\<rparr>],
    [\<lparr>obs_period = 5, best_match = 5, best_order = - 3, chisq = 0.9\<rparr>,
     \<lparr>obs_period = 6, best_match = 6, best_order = - 2, chisq = 0.3\<rparr>,
     \<lparr>obs_period = 7, best_match = 7, best_order = - 1, chisq = 0.3\<rparr>]] =
   Inr [\<lparr>obs_period = 5, best_match = 5, best_order = - 3, chisq = 0.9\<rparr>,
     \<lparr>obs_period = 6, best_match = 6, best_order = - 2, chisq = 0.3\<rparr>,
     \<lparr>obs_period = 7, best_match = 7, best_order = - 1, chisq = 0.3\<rparr>]"
proof -
  let ?a = "[\<lparr>obs_period = 1, best_match = 1, best_order = - 9, chisq = 0.2\<rparr>,
     \<lparr>obs_period = 2, best_match = 2, best_order = - 8, chisq = 1.0\<rparr>,
     \<lparr>obs_period = 3, best_match = 3, best_order = - 7, chisq = 2.4\<rparr>]"
  let ?b = "[\<lparr>obs_period = 4, best_match = 4, best_order = - 5, chisq = 9\<rparr>]"
  let ?c = "[\<lparr>obs_period = 5, best_match = 5, best_order = - 3, chisq = 0.9\<rparr>,
     \<lparr>obs_period = 6, best_match = 6, best_order = - 2, chisq = 0.3\<rparr>,
     \<lparr>obs_period = 7, best_match = 7, best_order = - 1, chisq = 0.3\<rparr>]"
  let ?s = "[?a, ?b, ?c]"
  have h1: "?s \<noteq> []" by simp
  have h2: "\<forall>s \<in> set ?s. s \<noteq> []" by simp
  have sa: "sum_list (map chisq ?a) / 3 = (1.2 :: real)"
    and sc: "sum_list (map chisq ?c) / 3 = (0.5 :: real)" by simp_all
  from sequence_selector_correct [OF h1 h2] obtain k where
    k: "k < length ?s" "sequence_selector ?s = Inr (?s ! k)"
    and mx: "\<forall>j < length ?s. length (?s ! j) \<le> length (?s ! k)"
    and mn: "\<forall>j < length ?s. length (?s ! j) = length (?s ! k) \<longrightarrow>
        sum_list (map chisq (?s ! k)) / real (length (?s ! k))
          \<le> sum_list (map chisq (?s ! j)) / real (length (?s ! j))"
    by blast
  have "k = 0 \<or> k = 1 \<or> k = 2" using k(1) by auto
  moreover have "k \<noteq> 0"
  proof
    assume "k = 0"
    then have "sum_list (map chisq ?a) / 3 \<le> sum_list (map chisq ?c) / 3"
      using mn[rule_format, of 2] by simp
    then show False unfolding sa sc by simp
  qed
  moreover have "k \<noteq> 1"
  proof
    assume "k = 1"
    then show False using mx[rule_format, of 0] by simp
  qed
  ultimately have "k = 2" by blast
  then have "sequence_selector ?s = Inr ?c" using k(2) by simp
  then show ?thesis using sa sc by simp
qed

subsection \<open>The aligner\<close>

lemma np_where_eq_least:
  assumes "k < length xs" "xs ! k = v" "\<forall>j < k. xs ! j \<noteq> v"
  shows "py_index (np_where_eq xs v) 0 = Inr k"
proof -
  have "v \<in> set xs" using assms(1,2) by auto
  then have wne: "np_where_eq xs v \<noteq> []" by (rule np_where_eq_nonempty)
  note f = np_where_eq_first[OF wne]
  have "\<not> np_where_eq xs v ! 0 < k" using assms(3) f(2) by auto
  moreover have "\<not> k < np_where_eq xs v ! 0" using f(3) assms(2) by auto
  ultimately have "np_where_eq xs v ! 0 = k" by linarith
  then show ?thesis using wne by (simp add: py_index_def)
qed

lemma aligned_entry_eq:
  assumes "length orders = length tperiods"
  shows "aligned_entry tperiods orders s i =
    Inr (if 0 \<le> s + int i \<and> s + int i < int (length tperiods)
         then (tperiods ! nat (s + int i), orders ! nat (s + int i)) else (- 1, - 1))"
  using assms by (auto simp: aligned_entry_def Let_def py_index_def)

lemma align_loop_eq:
  assumes "length orders = length tperiods"
  shows "align_loop tperiods orders s idxs acc =
    Inr (acc @ map (\<lambda>i. if 0 \<le> s + int i \<and> s + int i < int (length tperiods)
         then (tperiods ! nat (s + int i), orders ! nat (s + int i)) else (- 1, - 1)) idxs)"
  by (induction idxs arbitrary: acc) (simp_all add: aligned_entry_eq[OF assms])

lemma align_loop_length:
  "align_loop tperiods orders s idxs acc = Inr r \<Longrightarrow> length r = length acc + length idxs"
proof (induction idxs arbitrary: acc)
  case Nil
  then show ?case by simp
next
  case (Cons i idxs)
  then show ?case by (cases "aligned_entry tperiods orders s i") auto
qed

lemma pattern_aligner_length:
  assumes "pattern_aligner tperiods orders operiods lseq = Inr aligned"
  shows "length aligned = length operiods"
proof -
  from assms obtain s where "align_loop tperiods orders s [0..<length operiods] [] = Inr aligned"
    by (auto simp: pattern_aligner_def ebind_def Let_def split: sum.splits)
  from align_loop_length[OF this] show ?thesis by simp
qed

text \<open>
  C5. Let the first pair of the selected run hold an observed period whose (first) position
  in the observed segment is \<open>observedAnchorIndex\<close> and a matched period whose (first)
  position in the spectrum is \<open>theoreticalAnchorIndex\<close>, and let \<open>offset\<close> be their
  difference. Then the aligner returns a pattern with one entry per observed period, in the
  observed order; entry \<open>i\<close> is the theoretical period and order at \<open>offset + i\<close> when
  that index lies in \<open>[0, T)\<close> and the pair \<open>(-1, -1)\<close> otherwise. (\<^verbatim>\<open>np.where\<close> finds a
  period by its value: where a period occurs once, its first position is its position.)
\<close>

theorem pattern_aligner_correct:
  assumes "lseq \<noteq> []" and "length orders = length tperiods"
    and "observedAnchorIndex < length operiods"
    and "operiods ! observedAnchorIndex = obs_period (lseq ! 0)"
    and "\<forall>j < observedAnchorIndex. operiods ! j \<noteq> obs_period (lseq ! 0)"
    and "theoreticalAnchorIndex < length tperiods"
    and "tperiods ! theoreticalAnchorIndex = best_match (lseq ! 0)"
    and "\<forall>j < theoreticalAnchorIndex. tperiods ! j \<noteq> best_match (lseq ! 0)"
    and "offset = int theoreticalAnchorIndex - int observedAnchorIndex"
  shows "\<exists>aligned. pattern_aligner tperiods orders operiods lseq = Inr aligned \<and>
     length aligned = length operiods \<and>
     (\<forall>i < length operiods.
        aligned ! i =
          (if 0 \<le> offset + int i \<and> offset + int i < int (length tperiods)
           then (tperiods ! nat (offset + int i), orders ! nat (offset + int i))
           else (- 1, - 1)))"
proof -
  have first: "py_index lseq 0 = Inr (lseq ! 0)" using assms(1) by (simp add: py_index_def)
  have o: "py_index (np_where_eq operiods (obs_period (lseq ! 0))) 0 = Inr observedAnchorIndex"
    by (rule np_where_eq_least[OF assms(3,4,5)])
  have t: "py_index (np_where_eq tperiods (best_match (lseq ! 0))) 0 = Inr theoreticalAnchorIndex"
    by (rule np_where_eq_least[OF assms(6,7,8)])
  have "pattern_aligner tperiods orders operiods lseq =
    Inr (map (\<lambda>i. if 0 \<le> offset + int i \<and> offset + int i < int (length tperiods)
         then (tperiods ! nat (offset + int i), orders ! nat (offset + int i)) else (- 1, - 1))
       [0..<length operiods])"
    by (simp add: pattern_aligner_def first o t Let_def align_loop_eq[OF assms(2)] assms(9))
  then show ?thesis by simp
qed

theorem pattern_aligner_correct_witness:
  "[\<lparr>obs_period = 1.19, best_match = 1.2, best_order = - 1, chisq = 1\<rparr>] \<noteq> [] \<and>
   length [- 3, - 2, - 1 :: int] = length [1.0, 1.1, 1.2 :: real] \<and>
   [1.19, 1.31, 1.42 :: real] ! 0 = 1.19 \<and>
   [1.0, 1.1, 1.2 :: real] ! 2 = 1.2 \<and> [1.0, 1.1, 1.2 :: real] ! 0 \<noteq> 1.2 \<and>
   [1.0, 1.1, 1.2 :: real] ! 1 \<noteq> 1.2 \<and>
   (\<exists>aligned. pattern_aligner [1.0, 1.1, 1.2] [- 3, - 2, - 1] [1.19, 1.31, 1.42]
        [\<lparr>obs_period = 1.19, best_match = 1.2, best_order = - 1, chisq = 1\<rparr>] = Inr aligned \<and>
      length aligned = 3 \<and> aligned ! 0 = (1.2, - 1) \<and> aligned ! 1 = (- 1, - 1) \<and>
      aligned ! 2 = (- 1, - 1))"
proof -
  let ?lseq = "[\<lparr>obs_period = 1.19, best_match = 1.2, best_order = - 1, chisq = 1\<rparr>]"
  let ?t = "[1.0, 1.1, 1.2 :: real]"
  let ?o = "[- 3, - 2, - 1 :: int]"
  let ?p = "[1.19, 1.31, 1.42 :: real]"
  have h1: "?lseq \<noteq> []" by simp
  have h2: "length ?o = length ?t" by simp
  have h3: "0 < length ?p" by simp
  have h4: "?p ! 0 = obs_period (?lseq ! 0)" by simp
  have h5: "\<forall>j < (0::nat). ?p ! j \<noteq> obs_period (?lseq ! 0)" by simp
  have h6: "2 < length ?t" by simp
  have h7: "?t ! 2 = best_match (?lseq ! 0)" by simp
  have t0: "?t ! 0 \<noteq> 1.2" and t1: "?t ! 1 \<noteq> 1.2" by simp_all
  have h8: "\<forall>j < (2::nat). ?t ! j \<noteq> best_match (?lseq ! 0)"
  proof (intro allI impI)
    fix j :: nat assume "j < 2"
    then have "j = 0 \<or> j = 1" by auto
    then show "?t ! j \<noteq> best_match (?lseq ! 0)" using t0 t1 by auto
  qed
  have h9: "(2::int) = int 2 - int 0" by simp
  from pattern_aligner_correct [OF h1 h2 h3 h4 h5 h6 h7 h8 h9] obtain aligned where
    a: "pattern_aligner ?t ?o ?p ?lseq = Inr aligned" "length aligned = length ?p"
    and b: "\<forall>i < length ?p. aligned ! i =
          (if 0 \<le> 2 + int i \<and> 2 + int i < int (length ?t)
           then (?t ! nat (2 + int i), ?o ! nat (2 + int i)) else (- 1, - 1))"
    by blast
  have "aligned ! 0 = (1.2, - 1)" using b[rule_format, of 0] by simp
  moreover have "aligned ! 1 = (- 1, - 1)" using b[rule_format, of 1] by simp
  moreover have "aligned ! 2 = (- 1, - 1)" using b[rule_format, of 2] by simp
  moreover have "length aligned = 3" using a(2) by simp
  ultimately have "\<exists>aligned. pattern_aligner ?t ?o ?p ?lseq = Inr aligned \<and>
      length aligned = 3 \<and> aligned ! 0 = (1.2, - 1) \<and> aligned ! 1 = (- 1, - 1) \<and>
      aligned ! 2 = (- 1, - 1)"
    using a(1) by blast
  then show ?thesis using h4 h7 t0 t1 by simp
qed

subsection \<open>Period spacings and the chi-square of the pattern\<close>

lemma obs_series_loop_eq:
  assumes "\<forall>x \<in> set es. fst x + 1 < length periods \<and> fst x + 1 < length errors"
  shows "obs_series_loop periods errors es acc =
    Inr (fst acc @ map (\<lambda>x. \<bar>snd x - periods ! (fst x + 1)\<bar> * 86400) es,
         snd acc @ map (\<lambda>x. sqrt ((errors ! fst x)\<^sup>2 + (errors ! (fst x + 1))\<^sup>2) * 86400) es)"
  using assms
proof (induction es arbitrary: acc)
  case Nil
  then show ?case by simp
next
  case (Cons x es)
  obtain kk prd_k where x: "x = (kk, prd_k)" by (cases x)
  have b: "kk + 1 < length periods" "kk + 1 < length errors" "kk < length errors"
    using Cons.prems x by auto
  have rest: "\<forall>x \<in> set es. fst x + 1 < length periods \<and> fst x + 1 < length errors"
    using Cons.prems by simp
  show ?case
    using b by (simp add: x py_index_def Cons.IH[OF rest])
qed

lemma thry_series_loop_eq:
  assumes "\<forall>x \<in> set es. fst x + 1 < length periods"
  shows "thry_series_loop periods es acc =
    Inr (acc @ map (\<lambda>x. \<bar>snd x - periods ! (fst x + 1)\<bar> * 86400) es)"
  using assms
proof (induction es arbitrary: acc)
  case Nil
  then show ?case by simp
next
  case (Cons x es)
  obtain kk prd_k where x: "x = (kk, prd_k)" by (cases x)
  have b: "kk + 1 < length periods" using Cons.prems x by auto
  have rest: "\<forall>x \<in> set es. fst x + 1 < length periods" using Cons.prems by simp
  show ?case using b by (simp add: x py_index_def Cons.IH[OF rest])
qed

lemma enumerate_butlast_map:
  "map (\<lambda>x. f (fst x) (snd x)) (List.enumerate 0 (butlast ps)) =
   map (\<lambda>i. f i (ps ! i)) [0..<length ps - 1]"
  by (rule nth_equalityI) (simp_all add: nth_enumerate_eq nth_butlast)

lemma enumerate_butlast_bound:
  "x \<in> set (List.enumerate 0 (butlast ps)) \<Longrightarrow> fst x + 1 < length ps"
  by (auto simp: in_set_enumerate_eq)

lemma generate_thry_series_eq:
  "generate_thry_series periods =
     Inr (map (\<lambda>i. \<bar>periods ! i - periods ! (i + 1)\<bar> * 86400) [0..<length periods - 1])"
proof -
  have b: "\<forall>x \<in> set (List.enumerate 0 (butlast periods)). fst x + 1 < length periods"
    using enumerate_butlast_bound by blast
  show ?thesis
    unfolding generate_thry_series_def thry_series_loop_eq[OF b]
    using enumerate_butlast_map[of "\<lambda>i p. \<bar>p - periods ! (i + 1)\<bar> * 86400" periods]
    by simp
qed

lemma generate_obs_series_eq:
  assumes "length periods \<le> length errors"
  shows "generate_obs_series periods errors =
     Inr (map (\<lambda>i. \<bar>periods ! i - periods ! (i + 1)\<bar> * 86400) [0..<length periods - 1],
          map (\<lambda>i. sqrt ((errors ! i)\<^sup>2 + (errors ! (i + 1))\<^sup>2) * 86400) [0..<length periods - 1])"
proof -
  have b: "\<forall>x \<in> set (List.enumerate 0 (butlast periods)).
      fst x + 1 < length periods \<and> fst x + 1 < length errors"
    using enumerate_butlast_bound[of _ periods] assms by fastforce
  show ?thesis
    unfolding generate_obs_series_def obs_series_loop_eq[OF b]
    using enumerate_butlast_map[of "\<lambda>i p. \<bar>p - periods ! (i + 1)\<bar> * 86400" periods]
      enumerate_butlast_map[of "\<lambda>i p. sqrt ((errors ! i)\<^sup>2 + (errors ! (i + 1))\<^sup>2) * 86400" periods]
    by simp
qed

lemma series_chisq_maps:
  "series_chisq (map f [0..<n]) (map g [0..<n]) (map h [0..<n]) =
     (\<Sum>i<n. ((f i - g i) / h i)\<^sup>2) / real n"
proof -
  have "zip (map f [0..<n]) (zip (map g [0..<n]) (map h [0..<n])) =
      map (\<lambda>i. (f i, g i, h i)) [0..<n]"
    by (rule nth_equalityI) simp_all
  then show ?thesis
    by (simp add: series_chisq_def comp_def interv_sum_list_conv_sum_set_nat atLeast0LessThan)
qed

lemma engine_Inr_D:
  assumes "chisq_longest_sequence tperiods orders operiods operiods_errors = Inr r"
    and "length operiods \<le> length tperiods"
  shows "\<exists>pairs_orders inc lseq aligned obs_series obs_series_errors thr_series.
     sequence_matcher tperiods orders operiods operiods_errors = Inr pairs_orders \<and>
     increase_or_decrease orders = Inr inc \<and>
     sequence_selector (run_segmenter inc pairs_orders) = Inr lseq \<and>
     pattern_aligner tperiods orders operiods lseq = Inr aligned \<and>
     generate_obs_series operiods operiods_errors = Inr (obs_series, obs_series_errors) \<and>
     generate_thry_series (map fst aligned) = Inr thr_series \<and>
     r = (series_chisq obs_series thr_series obs_series_errors, map fst aligned, map snd aligned)"
  using assms
  by (auto simp: chisq_longest_sequence_def ebind_def Let_def split: sum.splits prod.splits)

lemma scenario_A_engine:
  "chisq_longest_sequence [1.0, 1.1, 1.2, 1.3, 1.4] [- 5, - 4, - 3, - 2, - 1] [1.05, 1.22]
     [0.01, 0.01] = Inr (49 / 2, [1.0, 1.1], [- 5, - 4])"
  by (simp add: chisq_longest_sequence_def sequence_matcher_def best_pair_def chisqs_of_def
        py_index_def py_min_def py_max_def np_where_eq_def np_take_def increase_or_decrease_def
        run_segmenter_def segment_step_def sequence_selector_def score_def pattern_aligner_def
        aligned_entry_def generate_obs_series_def generate_thry_series_def series_chisq_def
        power_divide power_mult_distrib)

text \<open>
  C7. For \<open>N \<ge> 1\<close> periods with one positive error each, both builders return \<open>N - 1\<close>
  values, the \<open>i\<close>-th being \<open>|p\<^sub>i - p\<^sub>i\<^sub>+\<^sub>1| * 86400\<close>; the observed builder also
  returns the \<open>N - 1\<close> errors \<open>sqrt (e\<^sub>i\<^sup>2 + e\<^sub>i\<^sub>+\<^sub>1\<^sup>2) * 86400\<close>; and whenever the
  engine returns a pattern for these observations from a spectrum with at least \<open>N\<close>
  periods, its chi-square is the sum of the squared, error-scaled differences between the
  observed spacings and the spacings of the returned pattern, divided by \<open>N - 1\<close>.
\<close>

theorem spacing_series_correct:
  assumes "periods \<noteq> []" and "length errors = length periods" and "\<forall>e \<in> set errors. 0 < e"
  shows "generate_obs_series periods errors =
       Inr (map (\<lambda>i. \<bar>periods ! i - periods ! (i + 1)\<bar> * 86400) [0..<length periods - 1],
            map (\<lambda>i. sqrt ((errors ! i)\<^sup>2 + (errors ! (i + 1))\<^sup>2) * 86400)
              [0..<length periods - 1]) \<and>
     generate_thry_series periods =
       Inr (map (\<lambda>i. \<bar>periods ! i - periods ! (i + 1)\<bar> * 86400) [0..<length periods - 1]) \<and>
     (\<forall>tperiods orders c final_theoretical_periods corresponding_orders.
        length periods \<le> length tperiods \<and>
        chisq_longest_sequence tperiods orders periods errors =
          Inr (c, final_theoretical_periods, corresponding_orders) \<longrightarrow>
        c = (\<Sum>i < length periods - 1.
               ((\<bar>periods ! i - periods ! (i + 1)\<bar> * 86400
                 - \<bar>final_theoretical_periods ! i - final_theoretical_periods ! (i + 1)\<bar> * 86400)
                / (sqrt ((errors ! i)\<^sup>2 + (errors ! (i + 1))\<^sup>2) * 86400))\<^sup>2)
            / real (length periods - 1))"
proof (intro conjI allI impI)
  show obs: "generate_obs_series periods errors =
       Inr (map (\<lambda>i. \<bar>periods ! i - periods ! (i + 1)\<bar> * 86400) [0..<length periods - 1],
            map (\<lambda>i. sqrt ((errors ! i)\<^sup>2 + (errors ! (i + 1))\<^sup>2) * 86400)
              [0..<length periods - 1])"
    using assms(2) by (intro generate_obs_series_eq) simp
  show "generate_thry_series periods =
       Inr (map (\<lambda>i. \<bar>periods ! i - periods ! (i + 1)\<bar> * 86400) [0..<length periods - 1])"
    by (rule generate_thry_series_eq)
  fix tperiods orders c fin ords
  assume a: "length periods \<le> length tperiods \<and>
        chisq_longest_sequence tperiods orders periods errors = Inr (c, fin, ords)"
  from engine_Inr_D[OF conjunct2[OF a] conjunct1[OF a]] obtain lseq aligned os oe th where
    al: "pattern_aligner tperiods orders periods lseq = Inr aligned"
    and g: "generate_obs_series periods errors = Inr (os, oe)"
    and t: "generate_thry_series (map fst aligned) = Inr th"
    and r: "(c, fin, ords) = (series_chisq os th oe, map fst aligned, map snd aligned)"
    by blast
  have fin: "fin = map fst aligned" and c: "c = series_chisq os th oe" using r by simp_all
  have len: "length fin = length periods" using pattern_aligner_length[OF al] fin by simp
  have th: "th = map (\<lambda>i. \<bar>fin ! i - fin ! (i + 1)\<bar> * 86400) [0..<length periods - 1]"
    using t generate_thry_series_eq[of fin] len fin by simp
  have os: "os = map (\<lambda>i. \<bar>periods ! i - periods ! (i + 1)\<bar> * 86400) [0..<length periods - 1]"
    and oe: "oe = map (\<lambda>i. sqrt ((errors ! i)\<^sup>2 + (errors ! (i + 1))\<^sup>2) * 86400)
              [0..<length periods - 1]"
    using g obs by simp_all
  show "c = (\<Sum>i < length periods - 1.
               ((\<bar>periods ! i - periods ! (i + 1)\<bar> * 86400
                 - \<bar>fin ! i - fin ! (i + 1)\<bar> * 86400)
                / (sqrt ((errors ! i)\<^sup>2 + (errors ! (i + 1))\<^sup>2) * 86400))\<^sup>2)
            / real (length periods - 1)"
    unfolding c os oe th by (rule series_chisq_maps)
qed

theorem spacing_series_correct_witness:
  "[1.05, 1.22 :: real] \<noteq> [] \<and> length [0.01, 0.01 :: real] = length [1.05, 1.22 :: real] \<and>
   (0 :: real) < 0.01 \<and>
   generate_obs_series [1.05, 1.22] [0.01, 0.01] =
     Inr ([14688], [sqrt ((0.01)\<^sup>2 + (0.01)\<^sup>2) * 86400]) \<and>
   generate_thry_series [1.05, 1.22] = Inr [14688] \<and>
   (49 / 2 :: real) =
     ((\<bar>1.05 - 1.22\<bar> * 86400 - \<bar>1.0 - 1.1\<bar> * 86400)
        / (sqrt ((0.01)\<^sup>2 + (0.01)\<^sup>2) * 86400))\<^sup>2 / 1"
proof -
  let ?p = "[1.05, 1.22 :: real]"
  let ?e = "[0.01, 0.01 :: real]"
  have h1: "?p \<noteq> []" by simp
  have h2: "length ?e = length ?p" by simp
  have h3: "\<forall>e \<in> set ?e. 0 < e" by simp
  note w = spacing_series_correct [OF h1 h2 h3]
  have a: "generate_obs_series ?p ?e = Inr ([14688], [sqrt ((0.01)\<^sup>2 + (0.01)\<^sup>2) * 86400])"
    using w[THEN conjunct1] by simp
  have b: "generate_thry_series ?p = Inr [14688]"
    using w[THEN conjunct2, THEN conjunct1] by simp
  have c: "(49 / 2 :: real) =
     ((\<bar>1.05 - 1.22\<bar> * 86400 - \<bar>1.0 - 1.1\<bar> * 86400)
        / (sqrt ((0.01)\<^sup>2 + (0.01)\<^sup>2) * 86400))\<^sup>2 / 1"
    using w[THEN conjunct2, THEN conjunct2, rule_format,
        of "[1.0, 1.1, 1.2, 1.3, 1.4]" "[- 5, - 4, - 3, - 2, - 1]" "49 / 2" "[1.0, 1.1]" "[- 5, - 4]"]
      scenario_A_engine
    by simp
  show ?thesis using a b c by simp
qed

subsection \<open>The segmenter\<close>

text \<open>
  What the loop of lines 484-496 stores, for two or more pairs: the sequences, put end to
  end, are all pairs but the last, followed by the last but one a second time. The final
  pair is in no sequence.
\<close>

lemma segment_step_concat:
  assumes "segment_step inc ps lp (current, sequences) (ii, sett) = (current', sequences')"
  shows "concat sequences' @ current' =
    concat sequences @ current @ [sett] @ (if int ii = int lp - 1 then [sett] else [])"
    and "int ii = int lp - 1 \<Longrightarrow> current' = []"
  using assms by (auto simp: segment_step_def split: if_splits)

lemma segment_prefix:
  assumes "lp = length ps - 1" and "es = List.enumerate 0 (butlast ps)" and "k \<le> lp"
    and "foldl (segment_step inc ps lp) ([], []) (take k es) = (current, sequences)"
  shows "concat sequences @ current =
           take k ps @ (if k = lp \<and> 0 < k then [ps ! (k - 1)] else []) \<and>
         (k = lp \<longrightarrow> current = [])"
  using assms(3,4)
proof (induction k arbitrary: current sequences)
  case 0
  then show ?case by simp
next
  case (Suc k)
  have k: "k < lp" using Suc.prems(1) by simp
  then have kp: "k < length ps" and kb: "k < length (butlast ps)" using assms(1) by simp_all
  have nth: "es ! k = (k, ps ! k)"
    unfolding assms(2) using kb by (simp add: nth_enumerate_eq nth_butlast)
  have "k < length es" unfolding assms(2) using kb by simp
  then have tk: "take (Suc k) es = take k es @ [(k, ps ! k)]"
    using nth by (simp add: take_Suc_conv_app_nth)
  obtain c0 s0 where st: "foldl (segment_step inc ps lp) ([], []) (take k es) = (c0, s0)"
    by (cases "foldl (segment_step inc ps lp) ([], []) (take k es)")
  have ih: "concat s0 @ c0 = take k ps" using Suc.IH[OF _ st] k by simp
  have st': "segment_step inc ps lp (c0, s0) (k, ps ! k) = (current, sequences)"
    using Suc.prems(2) unfolding tk foldl_append st by simp
  note c = segment_step_concat[OF st']
  have last: "int k = int lp - 1 \<longleftrightarrow> Suc k = lp" by auto
  have "concat sequences @ current =
      take (Suc k) ps @ (if Suc k = lp then [ps ! k] else [])"
    using c(1) ih kp last by (simp add: take_Suc_conv_app_nth)
  moreover have "Suc k = lp \<longrightarrow> current = []" using c(2) last by simp
  ultimately show ?case by auto
qed

lemma run_segmenter_concat:
  assumes "2 \<le> length ps"
  shows "concat (run_segmenter inc ps) = butlast ps @ [last (butlast ps)]"
proof -
  define lp where "lp = length ps - 1"
  define es where "es = List.enumerate 0 (butlast ps)"
  have lp: "0 < lp" "lp = length (butlast ps)" using assms by (simp_all add: lp_def)
  obtain current sequences where st:
    "foldl (segment_step inc ps lp) ([], []) es = (current, sequences)"
    by (cases "foldl (segment_step inc ps lp) ([], []) es")
  have "take lp es = es" by (simp add: es_def lp(2))
  with st have "foldl (segment_step inc ps lp) ([], []) (take lp es) = (current, sequences)"
    by simp
  from segment_prefix[OF lp_def es_def order_refl this] lp(1)
  have "concat sequences = take lp ps @ [ps ! (lp - 1)]" by auto
  moreover have "take lp ps = butlast ps" by (simp add: butlast_conv_take lp_def)
  moreover have "ps ! (lp - 1) = last (butlast ps)"
  proof -
    have ne: "butlast ps \<noteq> []" using lp by (metis list.size(3) less_irrefl)
    have "last (butlast ps) = butlast ps ! (length (butlast ps) - 1)"
      by (rule last_conv_nth[OF ne])
    also have "\<dots> = ps ! (length (butlast ps) - 1)" using lp by (intro nth_butlast) simp
    finally show ?thesis using lp(2) by simp
  qed
  moreover have "run_segmenter inc ps = sequences"
    unfolding run_segmenter_def Let_def lp(2)[symmetric] es_def[symmetric] st by simp
  ultimately show ?thesis by simp
qed

text \<open>
  C1 (the code departs from the claim). The observed periods \<open>[1.11, 1.22]\<close> with errors
  \<open>0.01\<close> are matched to the theoretical periods \<open>1.1\<close> and \<open>1.2\<close> of the consecutive
  orders \<open>-4\<close> and \<open>-3\<close>. The segmenter returns one sequence that holds the first pair
  twice and not the second: the sequences are no partition of the pairs and the final pair
  ends no sequence.
\<close>

theorem final_pair_in_no_run:
  "sequence_matcher [1.0, 1.1, 1.2, 1.3, 1.4] [- 5, - 4, - 3, - 2, - 1] [1.11, 1.22] [0.01, 0.01] =
     Inr [\<lparr>obs_period = 1.11, best_match = 1.1, best_order = - 4, chisq = 1\<rparr>,
          \<lparr>obs_period = 1.22, best_match = 1.2, best_order = - 3, chisq = 4\<rparr>] \<and>
   increase_or_decrease [- 5, - 4, - 3, - 2, - 1] = Inr 1 \<and>
   run_segmenter 1
     [\<lparr>obs_period = 1.11, best_match = 1.1, best_order = - 4, chisq = 1\<rparr>,
      \<lparr>obs_period = 1.22, best_match = 1.2, best_order = - 3, chisq = 4\<rparr>] =
     [[\<lparr>obs_period = 1.11, best_match = 1.1, best_order = - 4, chisq = 1\<rparr>,
       \<lparr>obs_period = 1.11, best_match = 1.1, best_order = - 4, chisq = 1\<rparr>]]"
  by (simp add: sequence_matcher_def best_pair_def chisqs_of_def py_index_def py_min_def
        np_where_eq_def np_take_def increase_or_decrease_def run_segmenter_def segment_step_def)

subsection \<open>Scenario A\<close>

text \<open>
  C8, as stated, fails. On the input of the scenario the matcher does not pair \<open>1.05\<close>
  with the theoretical index 1 (period \<open>1.1\<close>, order \<open>-4\<close>), and the pairs it returns do
  not form one run of length 2.
\<close>

theorem scenario_A_counterexample:
  "sequence_matcher [1.0, 1.1, 1.2, 1.3, 1.4] [- 5, - 4, - 3, - 2, - 1] [1.05, 1.22] [0.01, 0.01] \<noteq>
     Inr [\<lparr>obs_period = 1.05, best_match = 1.1, best_order = - 4, chisq = 25\<rparr>,
          \<lparr>obs_period = 1.22, best_match = 1.2, best_order = - 3, chisq = 4\<rparr>] \<and>
   map length (run_segmenter 1
     [\<lparr>obs_period = 1.05, best_match = 1.0, best_order = - 5, chisq = 25\<rparr>,
      \<lparr>obs_period = 1.22, best_match = 1.2, best_order = - 3, chisq = 4\<rparr>]) \<noteq> [2]"
  by (simp add: sequence_matcher_def best_pair_def chisqs_of_def py_index_def py_min_def
        np_where_eq_def np_take_def run_segmenter_def segment_step_def)

text \<open>
  C8, amended. On the input of the scenario the observed period \<open>1.05\<close> is matched to the
  theoretical index 0 (period \<open>1.0\<close>, order \<open>-5\<close>): its chi-squares against \<open>1.0\<close> and
  \<open>1.1\<close> are both 25 and the first occurrence wins; \<open>1.22\<close> is matched to index 2
  (period \<open>1.2\<close>, order \<open>-3\<close>). The step is \<open>1\<close>, the orders \<open>-5\<close> and \<open>-3\<close> fail the
  test of line 487, and the segmenter returns two runs of length 1, none of length 2.
\<close>

theorem scenario_A_matching:
  "sequence_matcher [1.0, 1.1, 1.2, 1.3, 1.4] [- 5, - 4, - 3, - 2, - 1] [1.05, 1.22] [0.01, 0.01] =
     Inr [\<lparr>obs_period = 1.05, best_match = [1.0, 1.1, 1.2, 1.3, 1.4] ! 0,
            best_order = [- 5, - 4, - 3, - 2, - 1] ! 0, chisq = 25\<rparr>,
          \<lparr>obs_period = 1.22, best_match = [1.0, 1.1, 1.2, 1.3, 1.4] ! 2,
            best_order = [- 5, - 4, - 3, - 2, - 1] ! 2, chisq = 4\<rparr>] \<and>
   chisqs_of [1.0, 1.1, 1.2, 1.3, 1.4] 1.05 0.01 = [25, 25, 225, 625, 1225] \<and>
   increase_or_decrease [- 5, - 4, - 3, - 2, - 1] = Inr 1 \<and>
   \<bar>best_order \<lparr>obs_period = 1.05, best_match = 1.0, best_order = - 5, chisq = 25\<rparr>\<bar> \<noteq>
     \<bar>best_order \<lparr>obs_period = 1.22, best_match = 1.2, best_order = - 3, chisq = 4\<rparr>\<bar> + 1 \<and>
   map length (run_segmenter 1
     [\<lparr>obs_period = 1.05, best_match = 1.0, best_order = - 5, chisq = 25\<rparr>,
      \<lparr>obs_period = 1.22, best_match = 1.2, best_order = - 3, chisq = 4\<rparr>]) = [1, 1]"
  by (simp add: sequence_matcher_def best_pair_def chisqs_of_def py_index_def py_min_def
        np_where_eq_def np_take_def increase_or_decrease_def run_segmenter_def segment_step_def
        power_divide)

subsection \<open>The loop over the parts of an interrupted pattern\<close>

lemma delete_chosen_Inr:
  assumes "2 \<le> length orders" and "ouput_pulsations \<noteq> [] \<longrightarrow> 2 \<le> length ouput_pulsations"
    and "which_observable = ''frequency'' \<or> which_observable = ''period''"
  shows "\<exists>deleted. delete_chosen which_observable freqs periods orders ouput_pulsations = Inr deleted"
proof -
  have l: "Suc 0 < length orders" "orders \<noteq> []" using assms(1) by auto
  show ?thesis
  proof (cases "ouput_pulsations = []")
    case True
    then show ?thesis using assms(3) by (auto simp: delete_chosen_def)
  next
    case False
    then have "2 \<le> length ouput_pulsations" using assms(2) by simp
    then obtain v where v: "py_index_from_end ouput_pulsations 2 = Inr v"
      by (simp add: py_index_from_end_def)
    obtain w where w: "py_max ouput_pulsations = Inr w" using py_max_eq[OF False] by blast
    show ?thesis using assms(3) False l by (auto simp: delete_chosen_def py_index_def v w)
  qed
qed

lemma delete_chosen_unknown:
  assumes "which_observable \<noteq> ''frequency''" "which_observable \<noteq> ''period''"
  shows "delete_chosen which_observable freqs periods orders ouput_pulsations = Inl SystemExit"
    and "select_pulsations method_build_series which_observable freqs periods orders
       Obs_part ObsErr_part highest_amp_puls_part = Inl SystemExit"
  using assms by (simp_all add: delete_chosen_def select_pulsations_def)

lemma pattern_part_full_spectrum:
  assumes "2 \<le> length orders"
  shows "pattern_part method_build_series which_observable freqs periods orders ouput_pulsations
       (Obs_part, ObsErr_part, highest_amp_puls_part) =
     ebind (select_pulsations method_build_series which_observable freqs periods orders
              Obs_part ObsErr_part highest_amp_puls_part)
       (\<lambda>selected.
          Inr ((if length ouput_pulsations > 0 then ouput_pulsations @ [0] else ouput_pulsations)
                 @ selected))"
proof (cases "which_observable = ''frequency'' \<or> which_observable = ''period''")
  case True
  let ?out = "if length ouput_pulsations > 0 then ouput_pulsations @ [0] else ouput_pulsations"
  have "?out \<noteq> [] \<longrightarrow> 2 \<le> length ?out" by (cases ouput_pulsations) simp_all
  from delete_chosen_Inr[OF assms this True] obtain deleted where
    "delete_chosen which_observable freqs periods orders ?out = Inr deleted" by blast
  then show ?thesis by (simp add: pattern_part_def Let_def)
next
  case False
  then show ?thesis by (simp add: pattern_part_def Let_def delete_chosen_unknown)
qed

lemma pattern_loop_is_full_spectrum:
  assumes "2 \<le> length orders"
  shows "pattern_loop method_build_series which_observable freqs periods orders parts
       ouput_pulsations =
     pattern_loop_full_spectrum method_build_series which_observable freqs periods orders parts
       ouput_pulsations"
proof (induction parts arbitrary: ouput_pulsations)
  case Nil
  show ?case by simp
next
  case (Cons part parts)
  obtain Obs_part ObsErr_part hap where part: "part = (Obs_part, ObsErr_part, hap)"
    by (cases part) auto
  show ?case
  proof (cases "select_pulsations method_build_series which_observable freqs periods orders
              Obs_part ObsErr_part hap")
    case (Inl e)
    then show ?thesis by (simp add: part pattern_part_full_spectrum[OF assms])
  next
    case (Inr selected)
    then show ?thesis by (simp add: part pattern_part_full_spectrum[OF assms] Cons.IH)
  qed
qed

lemma pattern_part_Inr_D:
  assumes "pattern_part method_build_series which_observable freqs periods orders ouput_pulsations
       (Obs_part, ObsErr_part, highest_amp_puls_part) = Inr out"
  shows "\<exists>selected.
     select_pulsations method_build_series which_observable freqs periods orders
       Obs_part ObsErr_part highest_amp_puls_part = Inr selected \<and>
     out = (if length ouput_pulsations > 0 then ouput_pulsations @ [0] else ouput_pulsations)
             @ selected"
  using assms by (auto simp: pattern_part_def Let_def ebind_def split: sum.splits if_splits)

lemma pattern_loop_returns_full_spectrum:
  assumes "pattern_loop method_build_series which_observable freqs periods orders parts
       ouput_pulsations = Inr res"
  shows "pattern_loop_full_spectrum method_build_series which_observable freqs periods orders
       parts ouput_pulsations = Inr res"
  using assms
proof (induction parts arbitrary: ouput_pulsations)
  case Nil
  then show ?case by simp
next
  case (Cons part parts)
  obtain Obs_part ObsErr_part hap where part: "part = (Obs_part, ObsErr_part, hap)"
    by (cases part) auto
  from Cons.prems obtain out where
    out: "pattern_part method_build_series which_observable freqs periods orders
       ouput_pulsations (Obs_part, ObsErr_part, hap) = Inr out"
    and rest: "pattern_loop method_build_series which_observable freqs periods orders parts out
       = Inr res"
    unfolding part
    by (cases "pattern_part method_build_series which_observable freqs periods orders
       ouput_pulsations (Obs_part, ObsErr_part, hap)") simp_all
  from pattern_part_Inr_D[OF out] obtain selected where
    sel: "select_pulsations method_build_series which_observable freqs periods orders
       Obs_part ObsErr_part hap = Inr selected"
    and o: "out = (if length ouput_pulsations > 0 then ouput_pulsations @ [0]
                   else ouput_pulsations) @ selected"
    by blast
  show ?case using Cons.IH[OF rest] by (simp add: part sel o)
qed

text \<open>
  C10. Whenever the loop over the parts of an interrupted pattern returns, it returns what
  the loop without the \<^verbatim>\<open>np.delete\<close> statement returns; and with at least two radial
  orders (the statement reads \<^verbatim>\<open>orders[1]\<close>) the two loops agree on every input,
  exceptions included. So for every part, later ones included, the series is built from the
  complete arrays of theoretical frequencies and periods. In the witness the period \<open>4\<close>,
  chosen for the first part, is chosen again for the second.
\<close>

theorem removal_never_changes_spectrum:
  "(pattern_loop method_build_series which_observable freqs periods orders parts
        ouput_pulsations = Inr res \<longrightarrow>
    pattern_loop_full_spectrum method_build_series which_observable freqs periods orders parts
        ouput_pulsations = Inr res) \<and>
   (2 \<le> length orders \<longrightarrow>
    pattern_loop method_build_series which_observable freqs periods orders parts
        ouput_pulsations =
    pattern_loop_full_spectrum method_build_series which_observable freqs periods orders parts
        ouput_pulsations)"
  using pattern_loop_returns_full_spectrum pattern_loop_is_full_spectrum by blast

lemmas eval_defs = chisq_longest_sequence_def sequence_matcher_def best_pair_def chisqs_of_def
        py_index_def py_min_def py_max_def np_where_eq_def np_take_def increase_or_decrease_def
        run_segmenter_def segment_step_def sequence_selector_def score_def pattern_aligner_def
        aligned_entry_def generate_obs_series_def generate_thry_series_def series_chisq_def

lemma first_part_selected: "select_pulsations ''chisq_longest_sequence'' ''period'' [1, 1 / 2, 1 / 4, 1 / 5, 1 / 8]
    [1, 2, 4, 5, 8] [- 1, - 2, - 3, - 4, - 5] [2.1, 3.9] [0.1, 0.1] None = Inr [2, 4]"
  by (simp add: select_pulsations_def eval_defs)

lemma second_part_selected: "select_pulsations ''chisq_longest_sequence'' ''period'' [1, 1 / 2, 1 / 4, 1 / 5, 1 / 8]
    [1, 2, 4, 5, 8] [- 1, - 2, - 3, - 4, - 5] [3.9, 5.1] [0.1, 0.1] None = Inr [4, 5]"
  by (simp add: select_pulsations_def eval_defs)

theorem removal_never_changes_spectrum_witness:
  "2 \<le> length [- 1, - 2, - 3, - 4, - 5 :: int] \<and>
   pattern_loop ''chisq_longest_sequence'' ''period'' [1, 1 / 2, 1 / 4, 1 / 5, 1 / 8]
     [1, 2, 4, 5, 8] [- 1, - 2, - 3, - 4, - 5]
     [([2.1, 3.9], [0.1, 0.1], None), ([3.9, 5.1], [0.1, 0.1], None)] [] = Inr [2, 4, 0, 4, 5] \<and>
   pattern_loop_full_spectrum ''chisq_longest_sequence'' ''period'' [1, 1 / 2, 1 / 4, 1 / 5, 1 / 8]
     [1, 2, 4, 5, 8] [- 1, - 2, - 3, - 4, - 5]
     [([2.1, 3.9], [0.1, 0.1], None), ([3.9, 5.1], [0.1, 0.1], None)] [] = Inr [2, 4, 0, 4, 5]"
proof -
  have h: "2 \<le> length [- 1, - 2, - 3, - 4, - 5 :: int]" by simp
  have full: "pattern_loop_full_spectrum ''chisq_longest_sequence'' ''period''
     [1, 1 / 2, 1 / 4, 1 / 5, 1 / 8] [1, 2, 4, 5, 8] [- 1, - 2, - 3, - 4, - 5]
     [([2.1, 3.9], [0.1, 0.1], None), ([3.9, 5.1], [0.1, 0.1], None)] [] = Inr [2, 4, 0, 4, 5]"
    by (simp add: first_part_selected second_part_selected)
  show ?thesis
    using removal_never_changes_spectrum [THEN conjunct2, rule_format, OF h,
        of "''chisq_longest_sequence''" "''period''" "[1, 1 / 2, 1 / 4, 1 / 5, 1 / 8]"
          "[1, 2, 4, 5, 8]"
          "[([2.1, 3.9], [0.1, 0.1], None), ([3.9, 5.1], [0.1, 0.1], None)]" "[]"]
      full h
    by simp
qed

text \<open>
  The same run from the table row on, and what \<^verbatim>\<open>np.delete\<close> returns for its second
  part and drops.
\<close>

lemma dfrow_example:
  "theoretical_pattern_from_dfrow [] [1, 1 / 2, 1 / 4, 1 / 5, 1 / 8] [- 1, - 2, - 3, - 4, - 5]
     ''chisq_longest_sequence'' [2.1, 3.9, 0, 3.9, 5.1] [0.1, 0.1, 0, 0.1, 0.1] ''period'' [] =
   Inr [2, 4, 0, 4, 5]"
proof -
  have h: "2 \<le> length [- 1, - 2, - 3, - 4, - 5 :: int]" by simp
  show ?thesis
    by (simp add: theoretical_pattern_from_dfrow_def np_where_eq_def np_split_def py_slice_def
        pattern_loop_is_full_spectrum [OF h] first_part_selected second_part_selected)
qed

lemma delete_example:
  "delete_chosen ''period'' [1, 1 / 2, 1 / 4, 1 / 5, 1 / 8] [1, 2, 4, 5, 8]
     [- 1, - 2, - 3, - 4, - 5] [2, 4, 0] = Inr [5, 8]"
  by (simp add: delete_chosen_def py_index_def py_max_def np_delete_def np_where_def)

end
